theory Spec2Isabelle
  imports Complex_Main "HOL-Library.Sublist"
begin

section \<open>Data model\<close>

text \<open>
  The typedefs of the JavaScript sources. Tile indices and zoom levels are integers
  (\<^verbatim>\<open>Math.floor\<close> results and their increments), degrees are real numbers.

  In the code every number is an IEEE 754 double. An integer below \<open>2\<^sup>5\<^sup>3\<close> in magnitude
  is a double and \<^verbatim>\<open>++\<close> is exact on it, so the integer cursor of this model is the
  cursor of the code as long as no tile index reaches \<open>2\<^sup>5\<^sup>3\<close>; from there on \<^verbatim>\<open>++\<close>
  leaves a double unchanged and the code repeats an address for ever. The predicate
  \<open>inRange\<close> below names inputs that stay inside: the statements about whole runs assume
  it.

  \<^verbatim>\<open>Coords = {z, x, y}\<close>: the fields are called \<open>cz\<close>, \<open>cx\<close>, \<open>cy\<close> here.
  \<^verbatim>\<open>zoom = {min, max}\<close>: the fields are called \<open>zoom_min\<close>, \<open>zoom_max\<close> here.
\<close>

record Coords =
  cz :: int
  cx :: int
  cy :: int

record Bounds =
  north :: int
  west :: int
  south :: int
  east :: int

record Zoom =
  zoom_min :: int
  zoom_max :: int

text \<open>
  \<^verbatim>\<open>Options\<close>: \<open>bbox\<close> is the array \<^verbatim>\<open>[south, west, north, east]\<close> of the examples, read by
  index. The field \<^verbatim>\<open>output\<close> is called \<open>output_dir\<close> here. An absent \<^verbatim>\<open>referrer\<close>
  is \<open>None\<close>.
\<close>

record Options =
  url :: string
  bbox :: "real list"
  output_dir :: string
  zoom :: Zoom
  referrer :: "string option"
  verbose :: bool
  format :: string


section \<open>Double arithmetic\<close>

text \<open>
  JavaScript numbers are IEEE 754 binary64 values, and every \<^verbatim>\<open>+\<close>, \<^verbatim>\<open>/\<close> and \<^verbatim>\<open>*\<close>
  returns the exact result rounded to the nearest double, ties to the even significand.
  \<open>toDouble\<close> is that rounding: a nonzero number \<open>v\<close> with \<open>2\<^sup>e \<le> \<bar>v\<bar> < 2\<^sup>e\<^sup>+\<^sup>1\<close> is
  rounded on the grid of step \<open>ulp v = 2\<^sup>e\<^sup>-\<^sup>5\<^sup>2\<close> (53 significant bits). The exponent is
  not bounded here, so overflow to \<^verbatim>\<open>Infinity\<close> and the subnormal numbers are not
  modelled: the model is the arithmetic of the code while every intermediate result
  is zero or has a magnitude between \<open>2\<^sup>-\<^sup>1\<^sup>0\<^sup>2\<^sup>2\<close> and the largest double, which is the
  case for \<^verbatim>\<open>lngToTile\<close> on a double \<open>lng\<close> in \<open>[-180, 180]\<close> and a zoom in \<open>[0, 1023]\<close>.
\<close>

definition roundEven :: "real \<Rightarrow> int" where
  "roundEven q =
     (let f = \<lfloor>q\<rfloor>; r = q - of_int f
      in if r < 1 / 2 then f else if 1 / 2 < r then f + 1 else if even f then f else f + 1)"

definition ulp :: "real \<Rightarrow> real" where
  "ulp v = 2 powr of_int (\<lfloor>log 2 \<bar>v\<bar>\<rfloor> - 52)"

definition toDouble :: "real \<Rightarrow> real" where
  "toDouble v = (if v = 0 then 0 else of_int (roundEven (v / ulp v)) * ulp v)"

section \<open>Coordinate mapping\<close>

text \<open>
  \<^verbatim>\<open>lngToTile\<close> is the same text in \<^verbatim>\<open>src/index.js\<close>, \<^verbatim>\<open>part_000\<close> and \<^verbatim>\<open>part_001\<close>:
  \<^verbatim>\<open>Math.floor((lng + 180) / 360 * Math.pow(2, zoom))\<close>. Each operation is rounded,
  in the order of evaluation: the sum, the quotient, the product. \<^verbatim>\<open>Math.floor\<close> is
  exact. \<^verbatim>\<open>Math.pow(2, zoom)\<close> is taken to be the power of two itself, which is a
  double for every integer zoom in \<open>[-1022, 1023]\<close> (for zoom 0 the language requires the
  result 1).
\<close>

definition lngToTile :: "real \<Rightarrow> int \<Rightarrow> int" where
  "lngToTile lng zm =
     \<lfloor>toDouble (toDouble (toDouble (lng + 180) / 360) * 2 powr of_int zm)\<rfloor>"

text \<open>
  The formula of the specification, \<open>longitudeToTileX(lng, z) = floor((lng + 180) / 360 * 2\<^sup>z)\<close>,
  in exact arithmetic, to compare \<^verbatim>\<open>lngToTile\<close> with.
\<close>

definition longitudeToTileX :: "real \<Rightarrow> int \<Rightarrow> int" where
  "longitudeToTileX lng zm = \<lfloor>(lng + 180) / 360 * 2 powr (of_int zm)\<rfloor>"

text \<open>
  \<^verbatim>\<open>latToTile\<close>, the same text in the three files:
  \<^verbatim>\<open>Math.floor((1 - log / Math.PI) / 2 * Math.pow(2, zoom))\<close> with
  \<^verbatim>\<open>log = Math.log(Math.tan(lat * Math.PI / 180) + 1 / Math.cos(lat * Math.PI / 180))\<close>.
  The language leaves the accuracy of \<^verbatim>\<open>Math.tan\<close>, \<^verbatim>\<open>Math.cos\<close> and \<^verbatim>\<open>Math.log\<close> to
  the implementation, so this function is taken in exact arithmetic. It is the row of the
  code for a latitude of the Mercator range that is not within rounding distance of a
  row boundary. It is not the code at the poles: there the exact tangent is undefined
  (zero in HOL), while the code computes with the double nearest to \<open>\<pi>/2\<close> and returns
  a negative row for 90 and \<^verbatim>\<open>Infinity\<close> for -90.
\<close>

definition latToTile :: "real \<Rightarrow> int \<Rightarrow> int" where
  "latToTile lat zm =
     (let log = ln (tan (lat * pi / 180) + 1 / cos (lat * pi / 180))
      in \<lfloor>(1 - log / pi) / 2 * 2 powr (of_int zm)\<rfloor>)"

text \<open>\<^verbatim>\<open>bboxToBounds\<close> of \<^verbatim>\<open>part_000\<close> and \<^verbatim>\<open>part_001\<close> (the same text in both).\<close>

definition bboxToBounds :: "real list \<Rightarrow> int \<Rightarrow> Bounds" where
  "bboxToBounds bb zm =
     \<lparr> north = latToTile (bb ! 2) zm,
       west = lngToTile (bb ! 1) zm,
       south = latToTile (bb ! 0) zm,
       east = lngToTile (bb ! 3) zm \<rparr>"

text \<open>
  \<^verbatim>\<open>bboxToBounds\<close> of \<^verbatim>\<open>src/index.js\<close>: there \<^verbatim>\<open>bounds.north\<close> is computed from
  \<^verbatim>\<open>bbox[0]\<close> and \<^verbatim>\<open>bounds.south\<close> from \<^verbatim>\<open>bbox[2]\<close>.
\<close>

definition bboxToBounds_index :: "real list \<Rightarrow> int \<Rightarrow> Bounds" where
  "bboxToBounds_index bb zm =
     \<lparr> north = latToTile (bb ! 0) zm,
       west = lngToTile (bb ! 1) zm,
       south = latToTile (bb ! 2) zm,
       east = lngToTile (bb ! 3) zm \<rparr>"

section \<open>Numbers as text, and the URL template\<close>

text \<open>
  The text of an integer, as a template literal or \<^verbatim>\<open>String.prototype.replace\<close> writes a
  number: decimal digits, with a leading minus sign for a negative number.
\<close>

definition digitChar :: "nat \<Rightarrow> char" where
  "digitChar n = ''0123456789'' ! n"

fun digits :: "nat \<Rightarrow> string" where
  "digits n = (if n < 10 then [digitChar n] else digits (n div 10) @ [digitChar (n mod 10)])"

declare digits.simps [simp del]

definition numToString :: "int \<Rightarrow> string" where
  "numToString i = (if i < 0 then CHR ''-'' # digits (nat (- i)) else digits (nat i))"

text \<open>
  \<^verbatim>\<open>url.replace(/{x}/, v)\<close>: the regular expression has no \<^verbatim>\<open>g\<close> flag, so the leftmost
  match of the literal text is replaced and nothing else. \<open>replaceFirst pat rep s\<close> is used
  with a non-empty \<open>pat\<close> only.
\<close>

fun replaceFirst :: "string \<Rightarrow> string \<Rightarrow> string \<Rightarrow> string" where
  "replaceFirst pat rep [] = []"
| "replaceFirst pat rep (c # cs) =
     (if prefix pat (c # cs) then rep @ drop (length pat) (c # cs)
      else c # replaceFirst pat rep cs)"

text \<open>\<^verbatim>\<open>templateToUrl\<close> (the same text in \<^verbatim>\<open>part_000\<close> and \<^verbatim>\<open>part_001\<close>).\<close>

definition templateToUrl :: "string \<Rightarrow> Coords \<Rightarrow> string" where
  "templateToUrl u0 coords =
     (let u1 = replaceFirst ''{x}'' (numToString (cx coords)) u0;
          u2 = replaceFirst ''{y}'' (numToString (cy coords)) u1;
          u3 = replaceFirst ''{z}'' (numToString (cz coords)) u2
      in u3)"

text \<open>
  For the statements about placeholders: the number of places of a text where a pattern
  starts, and the three-character placeholder of a letter.
\<close>

fun occurrences :: "string \<Rightarrow> string \<Rightarrow> nat" where
  "occurrences pat [] = 0"
| "occurrences pat (c # cs) = (if prefix pat (c # cs) then 1 else 0) + occurrences pat cs"

definition placeholder :: "char \<Rightarrow> string" where
  "placeholder a = [CHR ''{'', a, CHR ''}'']"

text \<open>
  What the claim about the template says of one replacement, in its own words: \<open>v\<close> is
  \<open>u\<close> with the first occurrence of \<open>pat\<close> replaced by \<open>rep\<close> and everything before and
  after it left as it is: \<open>pat\<close> starts at position \<open>n\<close> of \<open>u\<close> and at no earlier
  position, and \<open>v\<close> is the first \<open>n\<close> characters of \<open>u\<close>, then \<open>rep\<close>, then what follows
  the match in \<open>u\<close>; or \<open>pat\<close> starts nowhere in \<open>u\<close> and \<open>v\<close> is \<open>u\<close>.
\<close>

definition firstReplaced :: "string \<Rightarrow> string \<Rightarrow> string \<Rightarrow> string \<Rightarrow> bool" where
  "firstReplaced pat rep u v \<longleftrightarrow>
     (\<exists>n \<in> {0..length u}. prefix pat (drop n u) \<and> (\<forall>i \<in> {0..<n}. \<not> prefix pat (drop i u))
         \<and> v = take n u @ rep @ drop (n + length pat) u)
     \<or> ((\<forall>i \<in> {0..length u}. \<not> prefix pat (drop i u)) \<and> v = u)"

section \<open>Directories, files and the tile request\<close>

text \<open>
  The disk is the list of the paths created so far. A path exists when it was created or
  when a created path lies below it (a file cannot exist without its directories).
  \<^verbatim>\<open>fs.mkdirSync\<close>, the HTTP request of \<^verbatim>\<open>axios\<close> and the stream that writes the image
  belong to the environment: their outcome for a path or a URL is a parameter of the
  model. A write stream either finishes (\<open>Written\<close>), or fails after the file was made
  (\<open>Truncated\<close>), or cannot make the file (\<open>Refused\<close>).
\<close>

type_synonym Disk = "string list"

definition existsSync :: "Disk \<Rightarrow> string \<Rightarrow> bool" where
  "existsSync disk path = list_ex (\<lambda>q. q = path \<or> prefix (path @ ''/'') q) disk"

datatype MkdirResult = Created | EEXIST | MkdirFailed

datatype WriteResult = Written | Truncated | Refused

record Env =
  mkdirSync :: "string \<Rightarrow> MkdirResult"
  fetchOk :: "string \<Rightarrow> bool"
  writeStream :: "string \<Rightarrow> WriteResult"

text \<open>
  \<^verbatim>\<open>createDir\<close>: the directory is made only when \<^verbatim>\<open>fs.existsSync\<close> is false; an exception
  other than \<^verbatim>\<open>EEXIST\<close> gives \<^verbatim>\<open>false\<close>.
\<close>

definition createDir :: "Env \<Rightarrow> string \<Rightarrow> Disk \<Rightarrow> bool \<times> Disk" where
  "createDir env path disk =
     (if \<not> existsSync disk path then
        (case mkdirSync env path of
           Created \<Rightarrow> (True, disk @ [path])
         | EEXIST \<Rightarrow> (True, disk)
         | MkdirFailed \<Rightarrow> (False, disk))
      else (True, disk))"

datatype Error = Error string

definition pathError :: "string \<Rightarrow> Error" where
  "pathError path = Error (''Failed to create '' @ [CHR 0x22] @ path @ [CHR 0x22])"

text \<open>
  \<^verbatim>\<open>getTile\<close> of \<^verbatim>\<open>part_001\<close>. The result is the argument its callback is called with
  (\<open>None\<close> for \<^verbatim>\<open>callback(null)\<close> and \<^verbatim>\<open>callback()\<close>), the disk afterwards, the
  requests made, each the URL with its \<^verbatim>\<open>Referer\<close> header, and what becomes of the
  process that made the call. Every path of the source calls the callback once: on a
  path error, on an existing image, and in the \<^verbatim>\<open>finally\<close> of the request, whether the
  request succeeded or not.

  The chain is \<^verbatim>\<open>axios(...).then(res => ...).finally(() => callback())\<close>, with no
  \<^verbatim>\<open>catch\<close>. When the request fails, \<^verbatim>\<open>finally\<close> calls the callback and hands the
  rejection on; nothing handles it, and the runtime ends the process on the unhandled
  rejection (the default of Node.js since version 15; older versions print a warning
  and go on). When the request succeeds the response is piped into
  \<^verbatim>\<open>fs.createWriteStream(image)\<close> and the callback is called at once; an error of that
  stream has no listener and ends the process too. In both cases the callback has been
  called before the process ends (\<open>Ends\<close>). The lines printed when \<^verbatim>\<open>verbose\<close> is set are
  left out.
\<close>

datatype Process = Continues | Ends

type_synonym Request = "string \<times> string option"

definition getTile ::
  "Env \<Rightarrow> string \<Rightarrow> string \<Rightarrow> Coords \<Rightarrow> string option \<Rightarrow> string \<Rightarrow> Disk
   \<Rightarrow> Error option \<times> Disk \<times> Request list \<times> Process" where
  "getTile env templateUrl out coords ref fmt disk =
     (let u = templateToUrl templateUrl coords;
          path = out @ ''/'' @ numToString (cz coords);
          (made, disk1) = createDir env path disk
      in if \<not> made then (Some (pathError path), disk1, [], Continues)
         else
           let path2 = path @ ''/'' @ numToString (cx coords);
               (made2, disk2) = createDir env path2 disk1
           in if \<not> made2 then (Some (pathError path2), disk2, [], Continues)
              else
                let image = path2 @ ''/'' @ numToString (cy coords) @ ''.'' @ fmt
                in if existsSync disk2 image then (None, disk2, [], Continues)
                   else if \<not> fetchOk env u then (None, disk2, [(u, ref)], Ends)
                   else (case writeStream env image of
                           Written \<Rightarrow> (None, disk2 @ [image], [(u, ref)], Continues)
                         | Truncated \<Rightarrow> (None, disk2 @ [image], [(u, ref)], Ends)
                         | Refused \<Rightarrow> (None, disk2, [(u, ref)], Ends)))"

text \<open>
  \<^verbatim>\<open>getTile\<close> of \<^verbatim>\<open>part_000\<close>: the same steps, with the extension \<^verbatim>\<open>.png\<close> fixed and
  no header on the request.
\<close>

definition getTile_seq ::
  "Env \<Rightarrow> string \<Rightarrow> string \<Rightarrow> Coords \<Rightarrow> Disk
   \<Rightarrow> Error option \<times> Disk \<times> Request list \<times> Process" where
  "getTile_seq env templateUrl out coords disk =
     (let u = templateToUrl templateUrl coords;
          path = out @ ''/'' @ numToString (cz coords);
          (made, disk1) = createDir env path disk
      in if \<not> made then (Some (pathError path), disk1, [], Continues)
         else
           let path2 = path @ ''/'' @ numToString (cx coords);
               (made2, disk2) = createDir env path2 disk1
           in if \<not> made2 then (Some (pathError path2), disk2, [], Continues)
              else
                let image = path2 @ ''/'' @ numToString (cy coords) @ ''.png''
                in if existsSync disk2 image then (None, disk2, [], Continues)
                   else if \<not> fetchOk env u then (None, disk2, [(u, None)], Ends)
                   else (case writeStream env image of
                           Written \<Rightarrow> (None, disk2 @ [image], [(u, None)], Continues)
                         | Truncated \<Rightarrow> (None, disk2 @ [image], [(u, None)], Ends)
                         | Refused \<Rightarrow> (None, disk2, [(u, None)], Ends)))"

section \<open>The job iterator of part_001\<close>

text \<open>
  \<^verbatim>\<open>Job\<close>: the fields \<^verbatim>\<open>url, output, verbose, referrer, coords, format, worker\<close> carry
  the prefix \<open>job_\<close> here. Only the jobs sent when the workers are forked carry
  \<^verbatim>\<open>worker\<close>. A job is serialised when it is sent, so it holds the coordinates of that
  moment: the model copies them.
\<close>

record Job =
  job_url :: string
  job_output :: string
  job_verbose :: bool
  job_referrer :: "string option"
  job_coords :: Coords
  job_format :: string
  job_worker :: "nat option"

definition VALID_FORMATS :: "string list" where
  "VALID_FORMATS = [''png'', ''jpg'', ''jpeg'']"

definition tileFormat :: "Options \<Rightarrow> string" where
  "tileFormat options = (if format options \<in> set VALID_FORMATS then format options else ''png'')"

definition newJob :: "Options \<Rightarrow> Coords \<Rightarrow> Job" where
  "newJob options c =
     \<lparr> job_url = url options,
       job_output = output_dir options,
       job_verbose = verbose options,
       job_referrer = (case referrer options of
                         None \<Rightarrow> None
                       | Some r \<Rightarrow> if r = [] then None else Some r),
       job_coords = c,
       job_format = tileFormat options,
       job_worker = None \<rparr>"

text \<open>The variables \<^verbatim>\<open>count\<close>, \<^verbatim>\<open>coords\<close> and \<^verbatim>\<open>bounds\<close> that \<^verbatim>\<open>getTiles\<close> closes over.\<close>

record Iter =
  count :: int
  coords :: Coords
  bounds :: Bounds

definition seed :: "Options \<Rightarrow> Iter" where
  "seed options =
     (let z0 = zoom_min (zoom options);
          b = bboxToBounds (bbox options) z0
      in \<lparr> count = 0, coords = \<lparr> cz = z0, cx = west b, cy = north b \<rparr>, bounds = b \<rparr>)"

text \<open>
  \<^verbatim>\<open>getNextJob\<close>: \<open>None\<close> is the \<^verbatim>\<open>undefined\<close> it returns when there is no job. The
  increments are those of integers: this is \<^verbatim>\<open>coords.y++\<close>, \<^verbatim>\<open>coords.x++\<close> and
  \<^verbatim>\<open>++coords.z\<close> of the code as long as the cursor stays below \<open>2\<^sup>5\<^sup>3\<close> (see \<open>inRange\<close>);
  beyond that the code's \<^verbatim>\<open>++\<close> no longer changes the number and this model does not
  describe it.
\<close>

definition getNextJob :: "Options \<Rightarrow> Iter \<Rightarrow> Job option \<times> Iter" where
  "getNextJob options it =
     (if cz (coords it) > zoom_max (zoom options) then (None, it)
      else
        let it1 = it\<lparr> count := count it + 1,
                      coords := (coords it)\<lparr> cy := cy (coords it) + 1 \<rparr> \<rparr>
        in if cy (coords it1) \<le> south (bounds it1) then (Some (newJob options (coords it1)), it1)
           else
             let it2 = it1\<lparr> coords := (coords it1)\<lparr> cx := cx (coords it1) + 1,
                                                     cy := north (bounds it1) \<rparr> \<rparr>
             in if cx (coords it2) \<le> east (bounds it2)
                then (Some (newJob options (coords it2)), it2)
                else
                  let zn = cz (coords it2) + 1;
                      b = bboxToBounds (bbox options) zn;
                      it3 = it2\<lparr> bounds := b,
                                  coords := \<lparr> cz = zn, cx = west b, cy = north b \<rparr> \<rparr>
                  in if cz (coords it3) \<le> zoom_max (zoom options)
                     then (Some (newJob options (coords it3)), it3)
                     else (None, it3))"

text \<open>
  The order in which the cursor moves: the zoom levels left, then the columns left in the
  level, then the rows left in the column. Every call of \<^verbatim>\<open>getNextJob\<close> that returns a
  job makes it smaller.
\<close>

definition remaining :: "Options \<Rightarrow> Iter \<Rightarrow> nat \<times> nat \<times> nat" where
  "remaining options it =
     (nat (zoom_max (zoom options) + 1 - cz (coords it)),
      nat (east (bounds it) + 1 - cx (coords it)),
      nat (south (bounds it) + 1 - cy (coords it)))"

lemma getNextJob_remaining:
  assumes "getNextJob options it = (Some j, it')"
  shows "(remaining options it', remaining options it) \<in> less_than <*lex*> less_than <*lex*> less_than"
  using assms
  by (auto simp: getNextJob_def remaining_def Let_def split: if_splits)

text \<open>
  All the jobs the iterator still returns: \<^verbatim>\<open>getNextJob\<close> called until it returns
  \<^verbatim>\<open>undefined\<close>, with the state it is left in.
\<close>

function jobsFrom :: "Options \<Rightarrow> Iter \<Rightarrow> Job list \<times> Iter" where
  "jobsFrom options it =
     (case getNextJob options it of
        (None, it') \<Rightarrow> ([], it')
      | (Some j, it') \<Rightarrow> (let (js, fin) = jobsFrom options it' in (j # js, fin)))"
  by pat_completeness auto
termination
proof (relation "inv_image (less_than <*lex*> less_than <*lex*> less_than)
                  (\<lambda>(options, it). remaining options it)", goal_cases)
  case 1
  show ?case by (intro wf_inv_image wf_lex_prod wf_less_than)
next
  case (2 options it r it' j)
  hence "getNextJob options it = (Some j, it')" by simp
  from getNextJob_remaining [OF this] show ?case by simp
qed

declare jobsFrom.simps [simp del]

section \<open>The dispatcher and the workers of part_001\<close>

text \<open>
  The message a worker sends back: \<^verbatim>\<open>{url: msg.url, success: !!err, err}\<close>. The field
  \<^verbatim>\<open>success\<close> is true exactly when there is an error; the dispatcher reads it to decide
  whether to print \<^verbatim>\<open>msg.err\<close>.
\<close>

record Message =
  msg_url :: string
  success :: bool
  err :: "Error option"

text \<open>
  The handler of the child process: it runs \<^verbatim>\<open>getTile\<close> on the job and sends the message
  from the callback. The last component tells whether the child process goes on or is
  ended by an error that nothing catches; the message is sent before that.
\<close>

definition workerOnMessage ::
  "Env \<Rightarrow> Job \<Rightarrow> Disk \<Rightarrow> Message \<times> Disk \<times> Request list \<times> Process" where
  "workerOnMessage env msg disk =
     (let (e, disk', reqs, fate) =
            getTile env (job_url msg) (job_output msg) (job_coords msg) (job_referrer msg)
              (job_format msg) disk
      in (\<lparr> msg_url = job_url msg, success = (e \<noteq> None), err = e \<rparr>, disk', reqs, fate))"

text \<open>
  The state of the master process: the iterator, the counter \<^verbatim>\<open>stopped\<close>, and what it has
  done so far: the jobs sent (with the worker each went to), the lines printed, the calls
  of the caller's \<^verbatim>\<open>callback\<close> (with the argument of each), and whether the workers were
  killed.
\<close>

datatype Console = LoggedError "Error option" | Downloaded int | Server string

record Master =
  iter :: Iter
  stopped :: nat
  sent :: "(nat \<times> Job) list"
  console :: "Console list"
  callbacks :: "Error option list"
  killed :: bool

definition stopChildProcesses :: "Options \<Rightarrow> nat \<Rightarrow> Master \<Rightarrow> Master" where
  "stopChildProcesses options numCPUs m =
     (let m1 = m\<lparr> stopped := stopped m + 1 \<rparr>
      in if stopped m1 < numCPUs then m1
         else m1\<lparr> killed := True,
                  console := console m1 @ (if verbose options then [Downloaded (count (iter m1))] else []),
                  callbacks := callbacks m1 @ [None] \<rparr>)"

text \<open>The handler \<^verbatim>\<open>worker.on('message', ...)\<close> of the master, for the worker \<open>w\<close>.\<close>

definition onMessage :: "Options \<Rightarrow> nat \<Rightarrow> nat \<Rightarrow> Message \<Rightarrow> Master \<Rightarrow> Master" where
  "onMessage options numCPUs w msg m =
     (let m1 = (if success msg then m\<lparr> console := console m @ [LoggedError (err msg)] \<rparr> else m);
          (nextJob, it') = getNextJob options (iter m1);
          m2 = m1\<lparr> iter := it' \<rparr>
      in case nextJob of
           Some job \<Rightarrow> m2\<lparr> sent := sent m2 @ [(w, job)] \<rparr>
         | None \<Rightarrow> stopChildProcesses options numCPUs m2)"

text \<open>
  \<^verbatim>\<open>getTiles\<close> in the master process, up to the end of its loop over the workers:
  \<open>numCPUs\<close> workers are forked, with the ids 1 to \<open>numCPUs\<close>, and each is sent a job built
  from \<^verbatim>\<open>coords\<close> as it stands; \<^verbatim>\<open>getNextJob\<close> is not called in that loop.
\<close>

definition getTiles :: "Options \<Rightarrow> nat \<Rightarrow> Env \<Rightarrow> Disk \<Rightarrow> Master \<times> Disk" where
  "getTiles options numCPUs env disk =
     (let it = seed options;
          (made, disk') = createDir env (output_dir options) disk
      in if \<not> made
         then (\<lparr> iter = it, stopped = 0, sent = [], console = [],
                  callbacks = [Some (pathError (output_dir options))], killed = False \<rparr>, disk')
         else (\<lparr> iter = it, stopped = 0,
                  sent = map (\<lambda>w. (w, (newJob options (coords it))\<lparr> job_worker := Some w \<rparr>))
                           [1..<numCPUs + 1],
                  console = [], callbacks = [], killed = False \<rparr>, disk'))"

text \<open>
  A run of the cluster. \<open>inbox\<close> holds the jobs that were sent to a worker that is alive
  and are not reported yet. One step: a worker finishes the job it holds (the tile
  request runs on the disk as it is then), its message reaches the master, and the job
  the master sends in reply, if any, joins the inbox. A worker whose process ends after
  its report (\<open>exited\<close>) answers no further job: the job the master sends it in reply is
  recorded in \<open>sent\<close> and never reported. (An unhandled rejection ends the process before
  the reply can arrive; an error of the write stream comes later, and the worker is
  taken to end before it reports again.) The master is taken to survive that send.
  Which worker reports next is not fixed by the program: a schedule gives, for each
  step, the position in the inbox of the job that is reported.
\<close>

record Cluster =
  master :: Master
  disk :: Disk
  requests :: "Request list"
  inbox :: "(nat \<times> Job) list"
  exited :: "nat list"

definition startCluster :: "Options \<Rightarrow> nat \<Rightarrow> Env \<Rightarrow> Disk \<Rightarrow> Cluster" where
  "startCluster options numCPUs env disk0 =
     (let (m, disk') = getTiles options numCPUs env disk0
      in \<lparr> master = m, disk = disk', requests = [], inbox = sent m, exited = [] \<rparr>)"

definition report :: "Options \<Rightarrow> nat \<Rightarrow> Env \<Rightarrow> nat \<Rightarrow> Cluster \<Rightarrow> Cluster" where
  "report options numCPUs env k c =
     (if inbox c = [] then c
      else
        let i = k mod length (inbox c);
            (w, job) = inbox c ! i;
            (msg, disk', reqs, fate) = workerOnMessage env job (disk c);
            m' = onMessage options numCPUs w msg (master c)
        in \<lparr> master = m', disk = disk', requests = requests c @ reqs,
             inbox = take i (inbox c) @ drop (Suc i) (inbox c)
                     @ (if fate = Ends then [] else drop (length (sent (master c))) (sent m')),
             exited = exited c @ (if fate = Ends then [w] else []) \<rparr>)"

fun runCluster :: "Options \<Rightarrow> nat \<Rightarrow> Env \<Rightarrow> nat list \<Rightarrow> Cluster \<Rightarrow> Cluster" where
  "runCluster options numCPUs env [] c = c"
| "runCluster options numCPUs env (k # ks) c =
     runCluster options numCPUs env ks (report options numCPUs env k c)"

section \<open>The sequential version of part_000\<close>

text \<open>
  \<^verbatim>\<open>tileGetCallback\<close>: called with the argument of \<^verbatim>\<open>getTile\<close>'s callback. It either
  hands the error to the caller's callback and stops, or moves the cursor and calls
  \<^verbatim>\<open>getTile\<close> again, or ends the run. The cursor moves as in \<^verbatim>\<open>getNextJob\<close>, on integers,
  with the same limit at \<open>2\<^sup>5\<^sup>3\<close>.
\<close>

datatype Step = Abort Error | Next Iter | Finished Iter

definition tileGetCallback :: "Options \<Rightarrow> Error option \<Rightarrow> Iter \<Rightarrow> Step" where
  "tileGetCallback options e it =
     (case e of
        Some er \<Rightarrow> Abort er
      | None \<Rightarrow>
          let it1 = it\<lparr> count := count it + 1,
                        coords := (coords it)\<lparr> cy := cy (coords it) + 1 \<rparr> \<rparr>
          in if cy (coords it1) \<le> south (bounds it1) then Next it1
             else
               let it2 = it1\<lparr> coords := (coords it1)\<lparr> cx := cx (coords it1) + 1,
                                                       cy := north (bounds it1) \<rparr> \<rparr>
               in if cx (coords it2) \<le> east (bounds it2) then Next it2
                  else
                    let zn = cz (coords it2) + 1;
                        b = bboxToBounds (bbox options) zn;
                        it3 = it2\<lparr> bounds := b,
                                    coords := \<lparr> cz = zn, cx = west b, cy = north b \<rparr> \<rparr>
                    in if cz (coords it3) \<le> zoom_max (zoom options) then Next it3
                       else Finished it3)"

lemma tileGetCallback_remaining:
  assumes "tileGetCallback options e it = Next it'"
  shows "(remaining options it', remaining options it) \<in> less_than <*lex*> less_than <*lex*> less_than"
  using assms
  by (auto simp: tileGetCallback_def remaining_def Let_def split: if_splits option.splits)

text \<open>
  What a run of \<^verbatim>\<open>getTiles\<close> of \<^verbatim>\<open>part_000\<close> did: the coordinates \<^verbatim>\<open>getTile\<close> was called
  with, in order, the disk and the requests, the lines printed (the server line and the
  final count, when \<^verbatim>\<open>verbose\<close> is set), the calls of the caller's callback, and whether
  the process was ended by an error that nothing catches. Such an error ends the process
  as soon as the calls begun by the callback of that tile return; the run is recorded up
  to that tile, and what those last calls still did for the next tile is left out.
\<close>

record Run =
  tiles :: "Coords list"
  run_disk :: Disk
  run_requests :: "Request list"
  run_console :: "Console list"
  run_callbacks :: "Error option list"
  run_exit :: Process

function getTileLoop :: "Options \<Rightarrow> Env \<Rightarrow> Iter \<Rightarrow> Disk \<Rightarrow> Run" where
  "getTileLoop options env it disk0 =
     (let (e, disk', reqs, fate) =
            getTile_seq env (url options) (output_dir options) (coords it) disk0
      in if fate = Ends
         then \<lparr> tiles = [coords it], run_disk = disk', run_requests = reqs, run_console = [],
                run_callbacks = [], run_exit = Ends \<rparr>
         else
           case tileGetCallback options e it of
             Abort er \<Rightarrow>
               \<lparr> tiles = [coords it], run_disk = disk', run_requests = reqs, run_console = [],
                 run_callbacks = [Some er], run_exit = Continues \<rparr>
           | Finished it' \<Rightarrow>
               \<lparr> tiles = [coords it], run_disk = disk', run_requests = reqs,
                 run_console = (if verbose options then [Downloaded (count it')] else []),
                 run_callbacks = [], run_exit = Continues \<rparr>
           | Next it' \<Rightarrow>
               (let r = getTileLoop options env it' disk'
                in r\<lparr> tiles := coords it # tiles r, run_requests := reqs @ run_requests r \<rparr>))"
  by pat_completeness auto
termination
proof (relation "inv_image (less_than <*lex*> less_than <*lex*> less_than)
                  (\<lambda>(options, env, it, disk0). remaining options it)", goal_cases)
  case 1
  show ?case by (intro wf_inv_image wf_lex_prod wf_less_than)
next
  case (2 options env it disk0 r e p disk' q reqs fate it')
  hence "tileGetCallback options e it = Next it'" by simp
  from tileGetCallback_remaining [OF this] show ?case by simp
qed

declare getTileLoop.simps [simp del]

definition getTiles_seq :: "Options \<Rightarrow> Env \<Rightarrow> Disk \<Rightarrow> Run" where
  "getTiles_seq options env disk0 =
     (let it = seed options;
          (made, disk') = createDir env (output_dir options) disk0
      in if \<not> made
         then \<lparr> tiles = [], run_disk = disk', run_requests = [], run_console = [],
                run_callbacks = [Some (pathError (output_dir options))], run_exit = Continues \<rparr>
         else
           let r = getTileLoop options env it disk'
           in r\<lparr> run_console := (if verbose options then [Server (url options)] else [])
                                   @ run_console r \<rparr>)"

section \<open>The cursor of src/index.js\<close>

text \<open>
  \<^verbatim>\<open>getTiles\<close> of \<^verbatim>\<open>src/index.js\<close> only builds \<^verbatim>\<open>coords\<close>, from its own
  \<^verbatim>\<open>bboxToBounds\<close>, with \<^verbatim>\<open>coords.x = bounds.east\<close> and \<^verbatim>\<open>coords.y = bounds.south\<close>. It
  requests no tile and never calls its callback.
\<close>

definition getTiles_index :: "Options \<Rightarrow> Coords" where
  "getTiles_index options =
     (let z0 = zoom_min (zoom options);
          b = bboxToBounds_index (bbox options) z0
      in \<lparr> cz = z0, cx = east b, cy = south b \<rparr>)"

section \<open>The sequence of addresses and what the specification says about it\<close>

text \<open>
  The addresses of a run: the coordinates the cursor starts at, then those of every job
  \<^verbatim>\<open>getNextJob\<close> returns.
\<close>

definition addresses :: "Options \<Rightarrow> Coords list" where
  "addresses options =
     coords (seed options) # map job_coords (fst (jobsFrom options (seed options)))"

text \<open>The iterator's \<^verbatim>\<open>bounds\<close> are those of the zoom level its cursor is at.\<close>

definition aligned :: "Options \<Rightarrow> Iter \<Rightarrow> bool" where
  "aligned options it \<longleftrightarrow> bounds it = bboxToBounds (bbox options) (cz (coords it))"

text \<open>The order of addresses: by zoom level, then by column, then by row.\<close>

definition coords_less :: "Coords \<Rightarrow> Coords \<Rightarrow> bool" where
  "coords_less a b \<longleftrightarrow>
     cz a < cz b \<or> (cz a = cz b \<and> (cx a < cx b \<or> (cx a = cx b \<and> cy a < cy b)))"

text \<open>
  The address after an address, in the words of the specification: the row advances; when
  it exceeds \<open>south\<close> the column advances and the row is reset to \<open>north\<close>; when the column
  exceeds \<open>east\<close> the zoom level advances, the bounds are computed for the new level and
  column and row are reset to \<open>west\<close> and \<open>north\<close>; when the zoom level exceeds the maximum
  there is no further address.
\<close>

definition successor :: "Options \<Rightarrow> Coords \<Rightarrow> Coords option" where
  "successor options a =
     (let ba = bboxToBounds (bbox options) (cz a)
      in if cy a + 1 \<le> south ba then Some \<lparr> cz = cz a, cx = cx a, cy = cy a + 1 \<rparr>
         else if cx a + 1 \<le> east ba then Some \<lparr> cz = cz a, cx = cx a + 1, cy = north ba \<rparr>
         else
           let zn = cz a + 1;
               bn = bboxToBounds (bbox options) zn
           in if zn \<le> zoom_max (zoom options) then Some \<lparr> cz = zn, cx = west bn, cy = north bn \<rparr>
              else None)"

text \<open>
  The nested enumeration of the specification: for increasing zoom level in
  \<open>[min, max]\<close>, for increasing column in \<open>[west, east]\<close>, for increasing row in
  \<open>[north, south]\<close>; and its closed-form length, the sum over the zoom levels of
  \<open>(east - west + 1) * (south - north + 1)\<close>.
\<close>

definition column :: "int \<Rightarrow> Bounds \<Rightarrow> int \<Rightarrow> Coords list" where
  "column zm b col = map (\<lambda>row. \<lparr> cz = zm, cx = col, cy = row \<rparr>) [north b..south b]"

definition level :: "Options \<Rightarrow> int \<Rightarrow> Coords list" where
  "level options zm =
     (let b = bboxToBounds (bbox options) zm in concat (map (column zm b) [west b..east b]))"

definition nestedOrder :: "Options \<Rightarrow> Coords list" where
  "nestedOrder options =
     concat (map (level options) [zoom_min (zoom options)..zoom_max (zoom options)])"


text \<open>Bounds as the data model of the specification wants them.\<close>

definition ordered :: "Bounds \<Rightarrow> bool" where
  "ordered b \<longleftrightarrow> north b \<le> south b \<and> west b \<le> east b"

text \<open>
  Inputs on which the numbers of the code are the integers of this model: a box of four
  numbers with both latitudes in the Mercator range and both longitudes in
  \<open>[-180, 180]\<close>, and zoom levels from 0 to 52. Then every tile index the code computes
  is a finite integer of magnitude at most \<open>2\<^sup>5\<^sup>3\<close>, the cursor stays below \<open>2\<^sup>5\<^sup>3\<close> and
  \<^verbatim>\<open>++\<close> is exact on it. Outside, the code can compute \<^verbatim>\<open>Infinity\<close> or \<^verbatim>\<open>NaN\<close> for a
  bound, read \<^verbatim>\<open>undefined\<close> from the box, or stop advancing at \<open>2\<^sup>5\<^sup>3\<close>, and the run
  need not end.
\<close>

definition inRange :: "Options \<Rightarrow> bool" where
  "inRange options \<longleftrightarrow>
     length (bbox options) = 4
     \<and> - 85.0511 \<le> bbox options ! 0 \<and> bbox options ! 0 \<le> 85.0511
     \<and> - 180 \<le> bbox options ! 1 \<and> bbox options ! 1 \<le> 180
     \<and> - 85.0511 \<le> bbox options ! 2 \<and> bbox options ! 2 \<le> 85.0511
     \<and> - 180 \<le> bbox options ! 3 \<and> bbox options ! 3 \<le> 180
     \<and> 0 \<le> zoom_min (zoom options) \<and> zoom_max (zoom options) \<le> 52"

text \<open>The counts a run printed (\<^verbatim>\<open>Downloaded n tiles.\<close>).\<close>

fun downloadedCounts :: "Console list \<Rightarrow> int list" where
  "downloadedCounts [] = []"
| "downloadedCounts (Downloaded n # ls) = n # downloadedCounts ls"
| "downloadedCounts (l # ls) = downloadedCounts ls"

text \<open>What is left to do: the jobs the iterator still returns, and the jobs not reported yet.\<close>

definition pendingWork :: "Options \<Rightarrow> Cluster \<Rightarrow> nat" where
  "pendingWork options c =
     length (fst (jobsFrom options (iter (master c)))) + length (inbox c)"

text \<open>
  The invariant of a run of the cluster whose output directory could be made and in
  which no worker process has ended: every worker either holds a job or was counted as
  stopped; the caller's callback is called, once and without an error, exactly when no
  job is left in the inbox; the jobs sent so far followed by the jobs still to come are
  the seed job once per worker followed by the iterator's jobs.
\<close>

definition running :: "Options \<Rightarrow> nat \<Rightarrow> Cluster \<Rightarrow> bool" where
  "running options numCPUs c \<longleftrightarrow>
     stopped (master c) + length (inbox c) = numCPUs
     \<and> exited c = []
     \<and> callbacks (master c) = (if inbox c = [] then [None] else [])
     \<and> killed (master c) = (inbox c = [])
     \<and> map (job_coords \<circ> snd) (sent (master c))
         @ map job_coords (fst (jobsFrom options (iter (master c))))
       = replicate numCPUs (coords (seed options))
         @ map job_coords (fst (jobsFrom options (seed options)))
     \<and> snd (jobsFrom options (iter (master c))) = snd (jobsFrom options (seed options))
     \<and> (inbox c = [] \<longrightarrow> iter (master c) = snd (jobsFrom options (seed options)))
     \<and> downloadedCounts (console (master c))
         = (if inbox c = [] \<and> verbose options
            then [count (snd (jobsFrom options (seed options)))] else [])"

section \<open>Sample inputs\<close>

text \<open>
  A box from the equator to 45 degrees north and from 90 degrees west to 90 degrees east,
  at zoom levels 0 and 1: one tile at level 0, four at level 1; the same box at zoom
  level 1 alone; and the same box with the zoom range given the wrong way round (min 1,
  max 0). A box on the equator that crosses the antimeridian (west 90, east -90),
  at zoom level 2. The environments: one in which every directory can be made and every
  request and write succeeds, one in which every request fails, and one in which only
  the output directory can be made.
\<close>

definition sampleOptions :: Options where
  "sampleOptions =
     \<lparr> url = ''http://tiles/{z}/{x}/{y}.png'', bbox = [0, - 90, 45, 90], output_dir = ''tiles'',
       zoom = \<lparr> zoom_min = 0, zoom_max = 1 \<rparr>, referrer = None, verbose = True,
       format = ''png'' \<rparr>"

definition levelOneOptions :: Options where
  "levelOneOptions =
     \<lparr> url = ''http://tiles/{z}/{x}/{y}.png'', bbox = [0, - 90, 45, 90], output_dir = ''tiles'',
       zoom = \<lparr> zoom_min = 1, zoom_max = 1 \<rparr>, referrer = None, verbose = True,
       format = ''png'' \<rparr>"

definition descendingOptions :: Options where
  "descendingOptions =
     \<lparr> url = ''http://tiles/{z}/{x}/{y}.png'', bbox = [0, - 90, 45, 90], output_dir = ''tiles'',
       zoom = \<lparr> zoom_min = 1, zoom_max = 0 \<rparr>, referrer = None, verbose = True,
       format = ''png'' \<rparr>"

definition crossingOptions :: Options where
  "crossingOptions =
     \<lparr> url = ''http://tiles/{z}/{x}/{y}.png'', bbox = [0, 90, 0, - 90], output_dir = ''tiles'',
       zoom = \<lparr> zoom_min = 2, zoom_max = 2 \<rparr>, referrer = None, verbose = True,
       format = ''png'' \<rparr>"

definition sampleEnv :: Env where
  "sampleEnv =
     \<lparr> mkdirSync = (\<lambda>p. Created), fetchOk = (\<lambda>u. True), writeStream = (\<lambda>p. Written) \<rparr>"

definition offlineEnv :: Env where
  "offlineEnv =
     \<lparr> mkdirSync = (\<lambda>p. Created), fetchOk = (\<lambda>u. False), writeStream = (\<lambda>p. Written) \<rparr>"

definition readOnlyEnv :: Env where
  "readOnlyEnv =
     \<lparr> mkdirSync = (\<lambda>p. if p = ''tiles'' then Created else MkdirFailed),
       fetchOk = (\<lambda>u. True), writeStream = (\<lambda>p. Written) \<rparr>"


section \<open>The longitude mapping in exact and in double arithmetic\<close>

text \<open>
  In exact arithmetic the formula maps \<open>[-180, 180)\<close> into \<open>[0, 2\<^sup>z - 1]\<close> and is
  monotone.
\<close>

lemma longitudeToTileX_range:
  assumes "0 \<le> zm" and "- 180 \<le> lng" and "lng < 180"
  shows "0 \<le> longitudeToTileX lng zm" and "longitudeToTileX lng zm \<le> 2 ^ nat zm - 1"
proof -
  have p: "(2::real) powr of_int zm = of_int (2 ^ nat zm)" using assms(1) by (simp add: powr_int)
  have "0 \<le> (lng + 180) / 360 * 2 powr of_int zm" using assms(2) by simp
  thus "0 \<le> longitudeToTileX lng zm" by (simp add: longitudeToTileX_def)
  have "(lng + 180) / 360 < 1" using assms(3) by simp
  hence "(lng + 180) / 360 * 2 powr of_int zm < 1 * 2 powr of_int zm"
    by (intro mult_strict_right_mono) simp_all
  hence "(lng + 180) / 360 * 2 powr of_int zm < of_int (2 ^ nat zm)" by (simp only: p mult_1)
  hence "\<lfloor>(lng + 180) / 360 * 2 powr of_int zm\<rfloor> < 2 ^ nat zm" by (simp only: floor_less_iff)
  thus "longitudeToTileX lng zm \<le> 2 ^ nat zm - 1" by (simp add: longitudeToTileX_def)
qed

lemma longitudeToTileX_mono: "lng1 \<le> lng2 \<Longrightarrow> longitudeToTileX lng1 zm \<le> longitudeToTileX lng2 zm"
  unfolding longitudeToTileX_def
  by (intro floor_mono mult_right_mono divide_right_mono) simp_all

subsection \<open>Rounding to the nearest double\<close>

lemma roundEven_int: "roundEven (of_int n) = n"
  by (simp add: roundEven_def)

lemma roundEven_bounds: "\<lfloor>q\<rfloor> \<le> roundEven q" "roundEven q \<le> \<lfloor>q\<rfloor> + 1"
  by (simp_all add: roundEven_def Let_def)

lemma roundEven_mono: "q \<le> q' \<Longrightarrow> roundEven q \<le> roundEven q'"
proof -
  assume le: "q \<le> q'"
  hence fl: "\<lfloor>q\<rfloor> \<le> \<lfloor>q'\<rfloor>" by (rule floor_mono)
  show ?thesis
  proof (cases "\<lfloor>q\<rfloor> = \<lfloor>q'\<rfloor>")
    case True
    thus ?thesis using le by (auto simp: roundEven_def Let_def)
  next
    case False
    hence "\<lfloor>q\<rfloor> + 1 \<le> \<lfloor>q'\<rfloor>" using fl by simp
    thus ?thesis using roundEven_bounds(2) [of q] roundEven_bounds(1) [of q'] by linarith
  qed
qed


lemma ulp_pos: "0 < ulp v"
  by (simp add: ulp_def)

lemma binade:
  assumes "0 < v"
  shows "2 powr of_int \<lfloor>log 2 v\<rfloor> \<le> v" "v < 2 powr of_int (\<lfloor>log 2 v\<rfloor> + 1)"
  using floor_log_eq_powr_iff [of v 2 "\<lfloor>log 2 v\<rfloor>"] assms by simp_all

lemma ulp_binade:
  assumes "0 < v"
  shows "2 powr 52 \<le> v / ulp v" "v / ulp v < 2 powr 53"
proof -
  let ?e = "\<lfloor>log 2 v\<rfloor>"
  have u: "ulp v = 2 powr of_int ?e / 2 powr 52"
    using assms by (simp add: ulp_def powr_diff)
  have "2 powr 52 * ulp v = 2 powr of_int ?e" by (simp add: u)
  hence "2 powr 52 * ulp v \<le> v" using binade(1) [OF assms] by simp
  thus "2 powr 52 \<le> v / ulp v" using ulp_pos [of v] by (simp add: pos_le_divide_eq)
  have "2 powr 53 * ulp v = 2 powr of_int (?e + 1)" by (simp add: u powr_add)
  hence "v < 2 powr 53 * ulp v" using binade(2) [OF assms] by simp
  thus "v / ulp v < 2 powr 53" using ulp_pos [of v] by (simp add: pos_divide_less_eq)
qed

lemma two_powr_int: "(2::real) powr 52 = of_int (2 ^ 52)" "(2::real) powr 53 = of_int (2 ^ 53)"
  by simp_all

lemma toDouble_binade:
  assumes "0 < v"
  shows "2 powr of_int \<lfloor>log 2 v\<rfloor> \<le> toDouble v"
    and "toDouble v \<le> 2 powr of_int (\<lfloor>log 2 v\<rfloor> + 1)"
proof -
  let ?e = "\<lfloor>log 2 v\<rfloor>"
  have u: "ulp v = 2 powr of_int ?e / 2 powr 52"
    using assms by (simp add: ulp_def powr_diff)
  have t: "toDouble v = of_int (roundEven (v / ulp v)) * ulp v"
    using assms by (simp add: toDouble_def)
  have "roundEven (of_int (2 ^ 52)) \<le> roundEven (v / ulp v)"
    using ulp_binade(1) [OF assms] by (intro roundEven_mono) (simp only: two_powr_int)
  hence "(2::int) ^ 52 \<le> roundEven (v / ulp v)" by (simp only: roundEven_int)
  hence "(2::real) powr 52 \<le> of_int (roundEven (v / ulp v))"
    by (simp only: two_powr_int of_int_le_iff)
  hence "2 powr 52 * ulp v \<le> of_int (roundEven (v / ulp v)) * ulp v"
    using ulp_pos [of v] by (simp only: mult_le_cancel_right_pos)
  moreover have "2 powr 52 * ulp v = 2 powr of_int ?e" by (simp add: u)
  ultimately show "2 powr of_int ?e \<le> toDouble v" by (simp only: t)
  have "roundEven (v / ulp v) \<le> roundEven (of_int (2 ^ 53))"
    using ulp_binade(2) [OF assms] by (intro roundEven_mono) (simp only: two_powr_int)
  hence "roundEven (v / ulp v) \<le> (2::int) ^ 53" by (simp only: roundEven_int)
  hence "of_int (roundEven (v / ulp v)) \<le> (2::real) powr 53"
    by (simp only: two_powr_int of_int_le_iff)
  hence "of_int (roundEven (v / ulp v)) * ulp v \<le> 2 powr 53 * ulp v"
    using ulp_pos [of v] by (simp only: mult_le_cancel_right_pos)
  moreover have "2 powr 53 * ulp v = 2 powr of_int (?e + 1)" by (simp add: u powr_add)
  ultimately show "toDouble v \<le> 2 powr of_int (?e + 1)" by (simp only: t)
qed

lemma toDouble_nonneg: "0 \<le> v \<Longrightarrow> 0 \<le> toDouble v"
proof (cases "v = 0")
  case True thus ?thesis by (simp add: toDouble_def)
next
  case False
  assume "0 \<le> v"
  hence "0 < v" using False by simp
  from toDouble_binade(1) [OF this] show ?thesis
    by (rule order_trans [rotated]) simp
qed

lemma toDouble_mono_pos:
  assumes "0 < v" "v \<le> w"
  shows "toDouble v \<le> toDouble w"
proof -
  have w: "0 < w" using assms by simp
  let ?ev = "\<lfloor>log 2 v\<rfloor>" and ?ew = "\<lfloor>log 2 w\<rfloor>"
  have "log 2 v \<le> log 2 w" using assms by simp
  hence le: "?ev \<le> ?ew" by (rule floor_mono)
  show ?thesis
  proof (cases "?ev = ?ew")
    case True
    hence u: "ulp v = ulp w" using assms w by (simp add: ulp_def)
    have "v / ulp w \<le> w / ulp w" using assms(2) ulp_pos [of w] by (simp add: divide_right_mono)
    hence "roundEven (v / ulp w) \<le> roundEven (w / ulp w)" by (rule roundEven_mono)
    hence "of_int (roundEven (v / ulp w)) * ulp w \<le> of_int (roundEven (w / ulp w)) * ulp w"
      using ulp_pos [of w] by (simp only: mult_le_cancel_right_pos of_int_le_iff)
    thus ?thesis using assms(1) w by (simp add: toDouble_def u)
  next
    case False
    hence "?ev + 1 \<le> ?ew" using le by simp
    hence "(2::real) powr of_int (?ev + 1) \<le> 2 powr of_int ?ew"
      by (intro powr_mono) simp_all
    thus ?thesis
      using toDouble_binade(2) [OF assms(1)] toDouble_binade(1) [OF w] by linarith
  qed
qed

lemma toDouble_mono: "0 \<le> v \<Longrightarrow> v \<le> w \<Longrightarrow> toDouble v \<le> toDouble w"
proof (cases "v = 0")
  case True
  assume "v \<le> w"
  hence "0 \<le> toDouble w" using True by (intro toDouble_nonneg) simp
  thus ?thesis using True by (simp add: toDouble_def)
next
  case False
  assume "0 \<le> v" "v \<le> w"
  thus ?thesis using False by (intro toDouble_mono_pos) simp_all
qed

lemma toDouble_eval:
  assumes "0 < v" "2 powr of_int e \<le> v" "v < 2 powr of_int (e + 1)"
    and "v / 2 powr of_int (e - 52) = q"
  shows "toDouble v = of_int (roundEven q) * 2 powr of_int (e - 52)"
proof -
  have "\<lfloor>log 2 v\<rfloor> = e"
    using floor_log_eq_powr_iff [of v 2 e] assms(1-3) by simp
  hence u: "ulp v = 2 powr of_int (e - 52)" using assms(1) by (simp add: ulp_def)
  have "toDouble v = of_int (roundEven (v / ulp v)) * ulp v"
    using assms(1) by (simp add: toDouble_def)
  thus ?thesis by (simp only: u assms(4))
qed

text \<open>A number that lies on the grid of its own binade is a double, and is not rounded.\<close>

lemma toDouble_exact:
  assumes "0 < v" "2 powr of_int e \<le> v" "v < 2 powr of_int (e + 1)"
    and "v = of_int m * 2 powr of_int (e - 52)"
  shows "toDouble v = v"
proof -
  have "v / 2 powr of_int (e - 52) = of_int m" by (subst assms(4)) simp
  from toDouble_eval [OF assms(1-3) this] show ?thesis
    by (simp only: roundEven_int assms(4) [symmetric])
qed

lemma roundEven_half: "roundEven (of_int n + 1 / 2) = (if even n then n else n + 1)"
proof -
  have "\<lfloor>of_int n + (1 / 2 :: real)\<rfloor> = n" by linarith
  thus ?thesis by (simp add: roundEven_def Let_def)
qed

lemma toDouble_360: "toDouble (360 - 1 / 2 ^ 45) = 360"
proof -
  define v :: real where "v = 360 - 1 / 2 ^ 45"
  have pos: "0 < v" and lo: "2 powr of_int 8 \<le> v" and hi: "v < 2 powr of_int (8 + 1)"
    by (simp_all add: v_def)
  have q: "v / 2 powr of_int (8 - 52) = of_int (360 * 2 ^ 44 - 1) + 1 / 2"
    by (simp add: v_def powr_minus_divide)
  have "toDouble v = of_int (roundEven (of_int (360 * 2 ^ 44 - 1) + 1 / 2)) * 2 powr of_int (8 - 52)"
    by (rule toDouble_eval [OF pos lo hi q])
  also have "\<dots> = 360" by (simp only: roundEven_half) (simp add: powr_minus_divide)
  finally show ?thesis by (simp only: v_def)
qed

lemma toDouble_one: "toDouble 1 = 1"
  by (rule toDouble_exact [of 1 0 "2 ^ 52"]) (simp_all add: powr_minus_divide)

lemma toDouble_below_360: "toDouble (360 - 1 / 2 ^ 44) = 360 - 1 / 2 ^ 44"
proof -
  define v :: real where "v = 360 - 1 / 2 ^ 44"
  have "toDouble v = v"
    by (rule toDouble_exact [of v 8 "360 * 2 ^ 44 - 1"]) (simp_all add: v_def powr_minus_divide)
  thus ?thesis by (simp only: v_def)
qed

lemma toDouble_below_one: "toDouble (1 - 1 / 2 ^ 53) = 1 - 1 / 2 ^ 53"
proof -
  define v :: real where "v = 1 - 1 / 2 ^ 53"
  have "toDouble v = v"
    by (rule toDouble_exact [of v "- 1" "2 ^ 53 - 1"]) (simp_all add: v_def powr_minus_divide)
  thus ?thesis by (simp only: v_def)
qed

lemma toDouble_below_power:
  "toDouble ((1 - 1 / 2 ^ 53) * 2 powr of_int zm) = (1 - 1 / 2 ^ 53) * 2 powr of_int zm"
proof (rule toDouble_exact [of _ "zm - 1" "2 ^ 53 - 1"])
  have half: "(2::real) powr of_int (zm - 1) = 2 powr of_int zm / 2"
    by (simp add: powr_diff)
  show "0 < (1 - 1 / 2 ^ 53) * 2 powr real_of_int zm" by simp
  show "2 powr real_of_int (zm - 1) \<le> (1 - 1 / 2 ^ 53) * 2 powr real_of_int zm"
    unfolding half by (simp add: field_simps)
  have "(1 - 1 / 2 ^ 53) * 2 powr real_of_int zm < 1 * 2 powr real_of_int zm"
    by (intro mult_strict_right_mono) simp_all
  thus "(1 - 1 / 2 ^ 53) * 2 powr real_of_int zm < 2 powr real_of_int (zm - 1 + 1)" by simp
  have "(2::real) powr of_int (zm - 1 - 52) = 2 powr of_int zm / 2 ^ 53"
    by (simp add: powr_diff)
  thus "(1 - 1 / 2 ^ 53) * 2 powr real_of_int zm
        = real_of_int (2 ^ 53 - 1) * 2 powr real_of_int (zm - 1 - 52)"
    by (simp add: field_simps)
qed

subsection \<open>Values at sample points\<close>

text \<open>
  At the longitudes and zoom levels of the sample boxes of this file every intermediate
  result is a double, so nothing is rounded.
\<close>

lemma toDouble_degrees:
  "toDouble 90 = 90" "toDouble 180 = 180" "toDouble 270 = 270"
proof -
  show "toDouble 90 = 90"
    by (rule toDouble_exact [of 90 6 "90 * 2 ^ 46"]) (simp_all add: powr_minus_divide)
  show "toDouble 180 = 180"
    by (rule toDouble_exact [of 180 7 "180 * 2 ^ 45"]) (simp_all add: powr_minus_divide)
  show "toDouble 270 = 270"
    by (rule toDouble_exact [of 270 8 "270 * 2 ^ 44"]) (simp_all add: powr_minus_divide)
qed

lemma toDouble_quarters:
  "toDouble (1 / 4) = 1 / 4" "toDouble (1 / 2) = 1 / 2" "toDouble (3 / 4) = 3 / 4"
proof -
  show "toDouble (1 / 4) = 1 / 4"
    by (rule toDouble_exact [of "1 / 4" "- 2" "2 ^ 52"]) (simp_all add: powr_minus_divide)
  show "toDouble (1 / 2) = 1 / 2"
    by (rule toDouble_exact [of "1 / 2" "- 1" "2 ^ 52"]) (simp_all add: powr_minus_divide)
  show "toDouble (3 / 4) = 3 / 4"
    by (rule toDouble_exact [of "3 / 4" "- 1" "3 * 2 ^ 51"]) (simp_all add: powr_minus_divide)
qed

lemma toDouble_small:
  "toDouble 1 = 1" "toDouble (3 / 2) = 3 / 2" "toDouble 2 = 2" "toDouble 3 = 3"
  "toDouble 4 = 4" "toDouble 6 = 6"
proof -
  show "toDouble 1 = 1"
    by (rule toDouble_exact [of 1 0 "2 ^ 52"]) (simp_all add: powr_minus_divide)
  show "toDouble (3 / 2) = 3 / 2"
    by (rule toDouble_exact [of "3 / 2" 0 "3 * 2 ^ 51"]) (simp_all add: powr_minus_divide)
  show "toDouble 2 = 2"
    by (rule toDouble_exact [of 2 1 "2 ^ 52"]) (simp_all add: powr_minus_divide)
  show "toDouble 3 = 3"
    by (rule toDouble_exact [of 3 1 "3 * 2 ^ 51"]) (simp_all add: powr_minus_divide)
  show "toDouble 4 = 4"
    by (rule toDouble_exact [of 4 2 "2 ^ 52"]) (simp_all add: powr_minus_divide)
  show "toDouble 6 = 6"
    by (rule toDouble_exact [of 6 2 "3 * 2 ^ 51"]) (simp_all add: powr_minus_divide)
qed

lemma lngToTile_samples:
  "lngToTile 0 0 = 0" "lngToTile 90 0 = 0" "lngToTile (- 90) 0 = 0"
  "lngToTile 0 1 = 1" "lngToTile 90 1 = 1" "lngToTile (- 90) 1 = 0"
  "lngToTile 0 2 = 2" "lngToTile 90 2 = 3" "lngToTile (- 90) 2 = 1"
  "lngToTile 0 3 = 4" "lngToTile 90 3 = 6" "lngToTile (- 90) 3 = 2"
  by (simp_all add: lngToTile_def toDouble_degrees toDouble_quarters toDouble_small)

lemma toDouble_last_below_180: "toDouble (180 - 1 / 2 ^ 45) = 180 - 1 / 2 ^ 45"
proof -
  define v :: real where "v = 180 - 1 / 2 ^ 45"
  have "toDouble v = v"
    by (rule toDouble_exact [of v 7 "180 * 2 ^ 45 - 1"]) (simp_all add: v_def powr_minus_divide)
  thus ?thesis by (simp only: v_def)
qed

lemma longitudeToTileX_last_below_180: "longitudeToTileX (180 - 1 / 2 ^ 45) 0 = 0"
  by (simp add: longitudeToTileX_def floor_eq_iff)

text \<open>
  The largest double below 180 is \<open>180 - 2\<^sup>-\<^sup>4\<^sup>5\<close> (printed
  \<^verbatim>\<open>179.99999999999997\<close>). Adding 180 gives \<open>360 - 2\<^sup>-\<^sup>4\<^sup>5\<close>, halfway between the doubles
  \<open>360 - 2\<^sup>-\<^sup>4\<^sup>4\<close> and 360; the tie goes to 360, whose significand is even.
\<close>

lemma lngToTile_last_below_180: "lngToTile (180 - 1 / 2 ^ 45) 0 = 1"
proof -
  have s: "(180 - 1 / 2 ^ 45 :: real) + 180 = 360 - 1 / 2 ^ 45" by simp
  have "lngToTile (180 - 1 / 2 ^ 45) 0
        = \<lfloor>toDouble (toDouble (toDouble (360 - 1 / 2 ^ 45) / 360) * 2 powr of_int 0)\<rfloor>"
    unfolding lngToTile_def s by (rule refl)
  also have "\<dots> = 1" unfolding toDouble_360 by (simp add: toDouble_one)
  finally show ?thesis .
qed

lemma toDouble_power: "toDouble (2 powr of_int zm) = 2 powr of_int zm"
proof (rule toDouble_exact [of _ zm "2 ^ 52"])
  show "0 < (2::real) powr of_int zm" by simp
  show "(2::real) powr of_int zm \<le> 2 powr of_int zm" by simp
  show "(2::real) powr of_int zm < 2 powr of_int (zm + 1)" by simp
  have "(2::real) powr of_int (zm - 52) = 2 powr of_int zm / 2 ^ 52" by (simp add: powr_diff)
  thus "(2::real) powr of_int zm = of_int (2 ^ 52) * 2 powr of_int (zm - 52)" by simp
qed

text \<open>At every zoom level the largest double below 180 is mapped to \<open>2\<^sup>z\<close>.\<close>

lemma lngToTile_last_double:
  assumes "0 \<le> zm"
  shows "lngToTile (180 - 1 / 2 ^ 45) zm = 2 ^ nat zm"
proof -
  have s: "(180 - 1 / 2 ^ 45 :: real) + 180 = 360 - 1 / 2 ^ 45" by simp
  have "lngToTile (180 - 1 / 2 ^ 45) zm
        = \<lfloor>toDouble (toDouble (toDouble (360 - 1 / 2 ^ 45) / 360) * 2 powr of_int zm)\<rfloor>"
    unfolding lngToTile_def s by (rule refl)
  also have "\<dots> = \<lfloor>toDouble (2 powr of_int zm)\<rfloor>"
    unfolding toDouble_360 by (simp add: toDouble_one)
  also have "\<dots> = \<lfloor>(2::real) powr of_int zm\<rfloor>" by (simp only: toDouble_power)
  also have "(2::real) powr of_int zm = of_int (2 ^ nat zm)" using assms by (simp add: powr_int)
  also have "\<lfloor>(of_int (2 ^ nat zm))::real\<rfloor> = 2 ^ nat zm" by (rule floor_of_int)
  finally show ?thesis .
qed

subsection \<open>Range and monotonicity of the rounded function\<close>

lemma lngToTile_range:
  assumes "0 \<le> zm" and "- 180 \<le> lng" and "lng \<le> 180 - 1 / 2 ^ 44"
  shows "0 \<le> lngToTile lng zm \<and> lngToTile lng zm \<le> 2 ^ nat zm - 1"
proof -
  let ?s = "toDouble (lng + 180)"
  let ?q = "toDouble (?s / 360)"
  let ?p = "toDouble (?q * 2 powr of_int zm)"
  have s0: "0 \<le> lng + 180" using assms(2) by simp
  have s: "0 \<le> ?s" using s0 by (rule toDouble_nonneg)
  have "?s \<le> toDouble (360 - 1 / 2 ^ 44)" using s0 assms(3) by (intro toDouble_mono) simp_all
  hence s': "?s \<le> 360 - 1 / 2 ^ 44" by (simp only: toDouble_below_360)
  have q0: "0 \<le> ?s / 360" using s by simp
  have q: "0 \<le> ?q" using q0 by (rule toDouble_nonneg)
  have "?s / 360 \<le> (360 - 1 / 2 ^ 44) / 360" using s' by (simp add: divide_right_mono)
  also have "\<dots> \<le> 1 - 1 / 2 ^ 53" by simp
  finally have "?q \<le> toDouble (1 - 1 / 2 ^ 53)" using q0 by (intro toDouble_mono)
  hence q': "?q \<le> 1 - 1 / 2 ^ 53" by (simp only: toDouble_below_one)
  have p0: "0 \<le> ?q * 2 powr of_int zm" using q by simp
  have p: "0 \<le> ?p" using p0 by (rule toDouble_nonneg)
  have "?q * 2 powr of_int zm \<le> (1 - 1 / 2 ^ 53) * 2 powr of_int zm"
    using q' by (intro mult_right_mono) simp_all
  hence "?p \<le> toDouble ((1 - 1 / 2 ^ 53) * 2 powr of_int zm)"
    using p0 by (intro toDouble_mono)
  hence "?p \<le> (1 - 1 / 2 ^ 53) * 2 powr of_int zm" by (simp only: toDouble_below_power)
  also have "\<dots> < 1 * 2 powr of_int zm" by (intro mult_strict_right_mono) simp_all
  also have "\<dots> = of_int (2 ^ nat zm)" using assms(1) by (simp add: powr_int)
  finally have "\<lfloor>?p\<rfloor> < 2 ^ nat zm" by (simp only: floor_less_iff)
  moreover have "0 \<le> \<lfloor>?p\<rfloor>" using p by simp
  ultimately show ?thesis by (simp add: lngToTile_def)
qed

lemma lngToTile_mono:
  assumes "- 180 \<le> lng1" and "lng1 \<le> lng2"
  shows "lngToTile lng1 zm \<le> lngToTile lng2 zm"
proof -
  have s0: "0 \<le> lng1 + 180" using assms(1) by simp
  have s: "toDouble (lng1 + 180) \<le> toDouble (lng2 + 180)"
    using s0 assms(2) by (intro toDouble_mono) simp_all
  have "0 \<le> toDouble (lng1 + 180)" using s0 by (rule toDouble_nonneg)
  hence q0: "0 \<le> toDouble (lng1 + 180) / 360" by simp
  have q: "toDouble (toDouble (lng1 + 180) / 360) \<le> toDouble (toDouble (lng2 + 180) / 360)"
    using q0 s by (intro toDouble_mono) (simp_all add: divide_right_mono)
  have "0 \<le> toDouble (toDouble (lng1 + 180) / 360)" using q0 by (rule toDouble_nonneg)
  hence p0: "0 \<le> toDouble (toDouble (lng1 + 180) / 360) * 2 powr of_int zm" by simp
  have "toDouble (toDouble (lng1 + 180) / 360) * 2 powr of_int zm
        \<le> toDouble (toDouble (lng2 + 180) / 360) * 2 powr of_int zm"
    using q by (intro mult_right_mono) simp_all
  with p0 have "toDouble (toDouble (toDouble (lng1 + 180) / 360) * 2 powr of_int zm)
        \<le> toDouble (toDouble (toDouble (lng2 + 180) / 360) * 2 powr of_int zm)"
    by (rule toDouble_mono)
  thus ?thesis unfolding lngToTile_def by (rule floor_mono)
qed
section \<open>Values of the latitude mapping at sample points\<close>

lemma latToTile_equator:
  "latToTile 0 0 = 0" "latToTile 0 1 = 1" "latToTile 0 2 = 2" "latToTile 0 3 = 4"
  by (simp_all add: latToTile_def)

lemma mercator_45:
  "ln (tan (45 * pi / 180) + 1 / cos (45 * pi / 180)) = ln (1 + sqrt 2)"
proof -
  have quarter: "45 * pi / 180 = pi / 4" by simp
  have "1 / (sqrt 2 / 2) = sqrt 2" by (simp add: real_div_sqrt)
  thus ?thesis unfolding quarter by (simp add: tan_45 cos_45)
qed

lemma mercator_45_bounds:
  "0 < ln (1 + sqrt 2) / pi" "ln (1 + sqrt 2) / pi < 1"
proof -
  have p: "2 \<le> pi" by (rule pi_ge_two)
  have "1 < 1 + sqrt 2" by simp
  hence "0 < ln (1 + sqrt 2)" by (rule ln_gt_zero)
  thus "0 < ln (1 + sqrt 2) / pi" using p by simp
  have "sqrt 2 < 3 / 2" by (rule real_less_lsqrt) (simp_all add: power2_eq_square)
  moreover have "ln (1 + sqrt 2) \<le> sqrt 2" by (rule ln_add_one_self_le_self) simp
  ultimately have "ln (1 + sqrt 2) < pi" using p by linarith
  thus "ln (1 + sqrt 2) / pi < 1" using p by (simp add: divide_less_eq)
qed

lemma latToTile_45_zoom1: "latToTile 45 1 = 0"
proof -
  let ?q = "ln (1 + sqrt 2) / pi"
  have e: "(1 - ?q) / 2 * 2 powr (of_int 1) = 1 - ?q" by simp
  have f: "\<lfloor>1 - ?q\<rfloor> = 0" using mercator_45_bounds by (simp add: floor_eq_iff)
  show ?thesis unfolding latToTile_def Let_def mercator_45 e by (rule f)
qed

lemma latToTile_45_zoom0: "latToTile 45 0 = 0"
proof -
  let ?q = "ln (1 + sqrt 2) / pi"
  have e: "(1 - ?q) / 2 * 2 powr (of_int 0) = (1 - ?q) / 2" by simp
  have f: "\<lfloor>(1 - ?q) / 2\<rfloor> = 0" using mercator_45_bounds by (simp add: floor_eq_iff)
  show ?thesis unfolding latToTile_def Let_def mercator_45 e by (rule f)
qed


section \<open>The latitude mapping in exact arithmetic\<close>

text \<open>
  For latitudes strictly between the poles the argument of the logarithm,
  \<open>tan x + 1 / cos x = (1 + sin x) / cos x\<close>, is positive and increases with \<open>x\<close>, so
  \<^verbatim>\<open>latToTile\<close> does not increase with the latitude: rows are counted southward. With
  the monotonicity of \<^verbatim>\<open>lngToTile\<close> this orders the bounds of every box
  \<^verbatim>\<open>[south, west, north, east]\<close> whose edges are in that order.
\<close>

lemma mercator_pos:
  assumes "- (pi / 2) < x" and "x < pi / 2"
  shows "0 < tan x + 1 / cos x"
proof -
  have c: "0 < cos x" using assms by (rule cos_gt_zero_pi)
  have "sin x ^ 2 + cos x ^ 2 = 1" by simp
  moreover have "0 < cos x ^ 2" using c by simp
  ultimately have "sin x ^ 2 < 1" by linarith
  hence "\<bar>sin x\<bar> < 1" by (simp add: abs_square_less_1)
  hence "0 < 1 + sin x" by linarith
  hence "0 < (1 + sin x) / cos x" using c by simp
  moreover have "tan x + 1 / cos x = (1 + sin x) / cos x"
    using c by (simp add: tan_def field_simps)
  ultimately show ?thesis by simp
qed

lemma mercator_mono:
  assumes "- (pi / 2) < x" and "x \<le> y" and "y < pi / 2"
  shows "tan x + 1 / cos x \<le> tan y + 1 / cos y"
proof (rule DERIV_nonneg_imp_nondecreasing [OF assms(2)])
  fix t assume t: "x \<le> t" "t \<le> y"
  hence c: "0 < cos t" using assms by (intro cos_gt_zero_pi) simp_all
  have d: "((\<lambda>t. tan t + 1 / cos t) has_real_derivative
             (1 / (cos t)\<^sup>2 + sin t / (cos t)\<^sup>2)) (at t)"
    using c by (auto intro!: derivative_eq_intros simp: field_simps power2_eq_square)
  have "- 1 \<le> sin t" by simp
  hence "0 \<le> 1 + sin t" by linarith
  hence "0 \<le> (1 + sin t) / (cos t)\<^sup>2" by (intro divide_nonneg_nonneg) simp_all
  hence "0 \<le> 1 / (cos t)\<^sup>2 + sin t / (cos t)\<^sup>2" by (simp add: add_divide_distrib)
  with d show "\<exists>d. ((\<lambda>t. tan t + 1 / cos t) has_real_derivative d) (at t) \<and> 0 \<le> d"
    by blast
qed

lemma latToTile_antimono:
  assumes "- 90 < lat1" and "lat1 \<le> lat2" and "lat2 < 90"
  shows "latToTile lat2 zm \<le> latToTile lat1 zm"
proof -
  let ?x = "lat1 * pi / 180" and ?y = "lat2 * pi / 180"
  have "(- 90) * pi < lat1 * pi" using assms(1) by (intro mult_strict_right_mono) simp_all
  hence x: "- (pi / 2) < ?x" by simp
  have "lat2 * pi < 90 * pi" using assms(3) by (intro mult_strict_right_mono) simp_all
  hence y: "?y < pi / 2" by simp
  have xy: "?x \<le> ?y" using assms(2) by (simp add: divide_right_mono mult_right_mono)
  have px: "0 < tan ?x + 1 / cos ?x" using x xy y by (intro mercator_pos) simp_all
  have "tan ?x + 1 / cos ?x \<le> tan ?y + 1 / cos ?y" using x xy y by (rule mercator_mono)
  hence "ln (tan ?x + 1 / cos ?x) \<le> ln (tan ?y + 1 / cos ?y)" using px by simp
  hence "ln (tan ?x + 1 / cos ?x) / pi \<le> ln (tan ?y + 1 / cos ?y) / pi"
    by (simp add: divide_right_mono)
  hence "(1 - ln (tan ?y + 1 / cos ?y) / pi) / 2 * 2 powr of_int zm
         \<le> (1 - ln (tan ?x + 1 / cos ?x) / pi) / 2 * 2 powr of_int zm"
    by (intro mult_right_mono divide_right_mono) simp_all
  thus ?thesis unfolding latToTile_def Let_def by (rule floor_mono)
qed

lemma geographic_box_ordered:
  assumes "- 90 < s" and "s \<le> n" and "n < 90" and "- 180 \<le> w" and "w \<le> e"
  shows "ordered (bboxToBounds [s, w, n, e] zm)"
  using latToTile_antimono [OF assms(1-3)] lngToTile_mono [OF assms(4,5)]
  by (simp add: ordered_def bboxToBounds_def)
section \<open>The URL template keeps every placeholder after the first\<close>

lemma digitChar_in: "n < 10 \<Longrightarrow> digitChar n \<in> set ''0123456789''"
  unfolding digitChar_def by (rule nth_mem) simp

lemma digits_nonempty: "digits n \<noteq> []"
  by (subst digits.simps) simp

lemma digits_chars: "set (digits n) \<subseteq> set ''0123456789''"
proof (induction n rule: digits.induct)
  case (1 n)
  show ?case
  proof (cases "n < 10")
    case True
    have "digits n = [digitChar n]" using True by (subst digits.simps) simp
    moreover have "digitChar n \<in> set ''0123456789''" using True by (rule digitChar_in)
    ultimately show ?thesis by (simp only: list.set insert_subset empty_subsetI simp_thms)
  next
    case False
    have e: "digits n = digits (n div 10) @ [digitChar (n mod 10)]"
      using False by (subst digits.simps) simp
    have "n mod 10 < 10" by simp
    hence "digitChar (n mod 10) \<in> set ''0123456789''" by (rule digitChar_in)
    moreover have "set (digits (n div 10)) \<subseteq> set ''0123456789''" using False by (rule 1)
    ultimately show ?thesis
      unfolding e by (simp only: set_append list.set Un_subset_iff insert_subset empty_subsetI simp_thms)
  qed
qed

lemma numToString_chars: "set (numToString i) \<subseteq> set ''-0123456789''"
proof -
  have sub: "set ''0123456789'' \<subseteq> set ''-0123456789''"
    by (simp only: list.set) (rule subset_insertI)
  have "set (digits (nat (- i))) \<subseteq> set ''-0123456789''"
       "set (digits (nat i)) \<subseteq> set ''-0123456789''"
    using digits_chars sub by (rule subset_trans)+
  moreover have "CHR ''-'' \<in> set ''-0123456789''" by simp
  ultimately show ?thesis
    unfolding numToString_def by (simp only: list.set(2) insert_subset split: if_split) simp
qed

lemma prefix_replaceFirst:
  assumes "rep \<noteq> []" "hd rep \<notin> set u" "CHR ''{'' \<notin> set u"
  shows "prefix u (replaceFirst (CHR ''{'' # p) rep s) \<longleftrightarrow> prefix u s"
  using assms
proof (induction u arbitrary: s)
  case Nil
  show ?case by simp
next
  case (Cons a u)
  note prems = Cons.prems and IH = Cons.IH
  show ?case
  proof (cases s)
    case Nil
    thus ?thesis by simp
  next
    case s: (Cons c cs)
    show ?thesis
    proof (cases "prefix (CHR ''{'' # p) (c # cs)")
      case True
      hence c: "c = CHR ''{''" by simp
      obtain r rs where r: "rep = r # rs" using prems(1) by (cases rep) auto
      have ne: "a \<noteq> r" "a \<noteq> CHR ''{''" using prems r by auto
      have "replaceFirst (CHR ''{'' # p) rep s = r # rs @ drop (length (CHR ''{'' # p)) (c # cs)"
        unfolding s using True r by simp
      thus ?thesis using ne c s by simp
    next
      case False
      have "prefix u (replaceFirst (CHR ''{'' # p) rep cs) \<longleftrightarrow> prefix u cs"
        using prems by (intro IH) auto
      moreover have "replaceFirst (CHR ''{'' # p) rep s = c # replaceFirst (CHR ''{'' # p) rep cs"
        unfolding s using False by auto
      ultimately show ?thesis using s by simp
    qed
  qed
qed

lemma occurrences_skip:
  assumes "CHR ''{'' \<notin> set rep"
  shows "occurrences (CHR ''{'' # q) (rep @ t) = occurrences (CHR ''{'' # q) t"
  using assms by (induction rep) auto

lemma occurrences_placeholder_self:
  "a \<noteq> CHR ''{'' \<Longrightarrow> occurrences (placeholder a) (placeholder a @ t) = Suc (occurrences (placeholder a) t)"
  by (simp add: placeholder_def)

lemma occurrences_placeholder_other:
  "a \<noteq> CHR ''{'' \<Longrightarrow> a \<noteq> b \<Longrightarrow>
   occurrences (placeholder b) (placeholder a @ t) = occurrences (placeholder b) t"
  by (simp add: placeholder_def)

lemma prefix_placeholder_replaceFirst:
  assumes "rep \<noteq> []" "hd rep \<noteq> b" "hd rep \<noteq> CHR ''}''" "b \<noteq> CHR ''{''"
  shows "prefix (placeholder b) (c # replaceFirst (placeholder a) rep cs)
         \<longleftrightarrow> prefix (placeholder b) (c # cs)"
proof -
  have "prefix [b, CHR ''}''] (replaceFirst (CHR ''{'' # [a, CHR ''}'']) rep cs)
        \<longleftrightarrow> prefix [b, CHR ''}''] cs"
    using assms by (intro prefix_replaceFirst) auto
  thus ?thesis by (simp add: placeholder_def)
qed

lemma occurrences_replaceFirst_other:
  assumes "rep \<noteq> []" "CHR ''{'' \<notin> set rep" "hd rep \<noteq> b" "hd rep \<noteq> CHR ''}''"
    and "a \<noteq> CHR ''{''" "b \<noteq> CHR ''{''" "a \<noteq> b"
  shows "occurrences (placeholder b) (replaceFirst (placeholder a) rep s)
         = occurrences (placeholder b) s"
proof (induction s)
  case Nil
  show ?case by simp
next
  case (Cons c cs)
  show ?case
  proof (cases "prefix (placeholder a) (c # cs)")
    case True
    then obtain t where t: "c # cs = placeholder a @ t" by (auto simp: prefix_def)
    have "replaceFirst (placeholder a) rep (c # cs) = rep @ drop (length (placeholder a)) (c # cs)"
      using True by simp
    hence "replaceFirst (placeholder a) rep (c # cs) = rep @ t"
      unfolding t by simp
    moreover have "occurrences (placeholder b) (rep @ t) = occurrences (placeholder b) t"
      unfolding placeholder_def using assms(2) by (rule occurrences_skip)
    moreover have "occurrences (placeholder b) (placeholder a @ t) = occurrences (placeholder b) t"
      using assms(5,7) by (rule occurrences_placeholder_other)
    ultimately show ?thesis by (simp add: t)
  next
    case False
    have "replaceFirst (placeholder a) rep (c # cs) = c # replaceFirst (placeholder a) rep cs"
      using False by simp
    moreover have "prefix (placeholder b) (c # replaceFirst (placeholder a) rep cs)
         \<longleftrightarrow> prefix (placeholder b) (c # cs)"
      using assms(1,3,4,6) by (rule prefix_placeholder_replaceFirst)
    ultimately show ?thesis using Cons.IH by simp
  qed
qed

lemma occurrences_replaceFirst_self:
  assumes "rep \<noteq> []" "CHR ''{'' \<notin> set rep" "hd rep \<noteq> a" "hd rep \<noteq> CHR ''}''"
    and "a \<noteq> CHR ''{''"
  shows "occurrences (placeholder a) (replaceFirst (placeholder a) rep s)
         = occurrences (placeholder a) s - 1"
proof (induction s)
  case Nil
  show ?case by simp
next
  case (Cons c cs)
  show ?case
  proof (cases "prefix (placeholder a) (c # cs)")
    case True
    then obtain t where t: "c # cs = placeholder a @ t" by (auto simp: prefix_def)
    have "replaceFirst (placeholder a) rep (c # cs) = rep @ drop (length (placeholder a)) (c # cs)"
      using True by simp
    hence "replaceFirst (placeholder a) rep (c # cs) = rep @ t"
      unfolding t by simp
    moreover have "occurrences (placeholder a) (rep @ t) = occurrences (placeholder a) t"
      unfolding placeholder_def using assms(2) by (rule occurrences_skip)
    moreover have "occurrences (placeholder a) (placeholder a @ t) = Suc (occurrences (placeholder a) t)"
      using assms(5) by (rule occurrences_placeholder_self)
    ultimately show ?thesis by (simp add: t)
  next
    case False
    have "replaceFirst (placeholder a) rep (c # cs) = c # replaceFirst (placeholder a) rep cs"
      using False by simp
    moreover have "prefix (placeholder a) (c # replaceFirst (placeholder a) rep cs)
         \<longleftrightarrow> prefix (placeholder a) (c # cs)"
      using assms(1,3,4,5) by (rule prefix_placeholder_replaceFirst)
    ultimately show ?thesis using Cons.IH False by simp
  qed
qed

lemma numToString_nonempty: "numToString i \<noteq> []"
  by (simp add: numToString_def digits_nonempty)

lemma numToString_safe:
  "CHR ''{'' \<notin> set (numToString i)" "hd (numToString i) \<noteq> CHR ''}''"
  "hd (numToString i) \<noteq> CHR ''x''" "hd (numToString i) \<noteq> CHR ''y''"
  "hd (numToString i) \<noteq> CHR ''z''"
proof -
  have "hd (numToString i) \<in> set (numToString i)"
    using numToString_nonempty by (rule hd_in_set)
  hence h: "hd (numToString i) \<in> set ''-0123456789''" using numToString_chars by blast
  show "CHR ''{'' \<notin> set (numToString i)"
  proof
    assume "CHR ''{'' \<in> set (numToString i)"
    hence "CHR ''{'' \<in> set ''-0123456789''" using numToString_chars by blast
    thus False by simp
  qed
  show "hd (numToString i) \<noteq> CHR ''}''" using h by auto
  show "hd (numToString i) \<noteq> CHR ''x''" using h by auto
  show "hd (numToString i) \<noteq> CHR ''y''" using h by auto
  show "hd (numToString i) \<noteq> CHR ''z''" using h by auto
qed

lemma placeholders: "''{x}'' = placeholder CHR ''x''" "''{y}'' = placeholder CHR ''y''"
  "''{z}'' = placeholder CHR ''z''"
  by (simp_all add: placeholder_def)

lemma numToString_samples:
  "numToString 0 = ''0''" "numToString 1 = ''1''" "numToString 2 = ''2''" "numToString 3 = ''3''"
  "numToString 4 = ''4''" "numToString 14 = ''14''" "numToString 4823 = ''4823''"
  "numToString 6160 = ''6160''" "numToString (- 5) = ''-5''"
  by (simp_all add: numToString_def digits.simps digitChar_def)

text \<open>
  Each replacement leaves one occurrence fewer of its placeholder and as many of the
  other two: the inserted digits can neither complete nor break a placeholder.
\<close>

lemma templateToUrl_occurrences:
  "occurrences ''{x}'' (templateToUrl u c) = occurrences ''{x}'' u - 1
   \<and> occurrences ''{y}'' (templateToUrl u c) = occurrences ''{y}'' u - 1
   \<and> occurrences ''{z}'' (templateToUrl u c) = occurrences ''{z}'' u - 1"
  unfolding templateToUrl_def Let_def placeholders
  by (simp add: occurrences_replaceFirst_other occurrences_replaceFirst_self
      numToString_safe numToString_nonempty)

lemma templateToUrl_sample:
  "templateToUrl ''/{z}/{x}/{y}/{x}{y}{z}'' \<lparr>cz = 14, cx = 4823, cy = 6160\<rparr>
     = ''/14/4823/6160/{x}{y}{z}''"
  by (simp add: templateToUrl_def numToString_samples)

subsection \<open>Which occurrence is replaced\<close>

lemma replaceFirst_cases:
  assumes "pat \<noteq> []"
  shows "(\<exists>n. n < Suc (length u) \<and> prefix pat (drop n u) \<and> (\<forall>i<n. \<not> prefix pat (drop i u))
            \<and> replaceFirst pat rep u = take n u @ rep @ drop (n + length pat) u)
         \<or> ((\<forall>i<Suc (length u). \<not> prefix pat (drop i u)) \<and> replaceFirst pat rep u = u)"
proof (induction u)
  case Nil
  show ?case using assms by simp
next
  case (Cons a w)
  show ?case
  proof (cases "prefix pat (a # w)")
    case True
    hence "0 < Suc (length (a # w)) \<and> prefix pat (drop 0 (a # w))
           \<and> (\<forall>i<0. \<not> prefix pat (drop i (a # w)))
           \<and> replaceFirst pat rep (a # w) = take 0 (a # w) @ rep @ drop (0 + length pat) (a # w)"
      by simp
    thus ?thesis by blast
  next
    case False
    hence r: "replaceFirst pat rep (a # w) = a # replaceFirst pat rep w" by simp
    from Cons.IH show ?thesis
    proof
      assume "\<exists>n. n < Suc (length w) \<and> prefix pat (drop n w) \<and> (\<forall>i<n. \<not> prefix pat (drop i w))
            \<and> replaceFirst pat rep w = take n w @ rep @ drop (n + length pat) w"
      then obtain n where n: "n < Suc (length w)" "prefix pat (drop n w)"
        "\<forall>i<n. \<not> prefix pat (drop i w)"
        "replaceFirst pat rep w = take n w @ rep @ drop (n + length pat) w" by blast
      have "\<forall>i<Suc n. \<not> prefix pat (drop i (a # w))"
        using False n(3) by (simp add: All_less_Suc2)
      hence "Suc n < Suc (length (a # w)) \<and> prefix pat (drop (Suc n) (a # w))
           \<and> (\<forall>i<Suc n. \<not> prefix pat (drop i (a # w)))
           \<and> replaceFirst pat rep (a # w)
               = take (Suc n) (a # w) @ rep @ drop (Suc n + length pat) (a # w)"
        using n r by simp
      thus ?thesis by blast
    next
      assume "(\<forall>i<Suc (length w). \<not> prefix pat (drop i w)) \<and> replaceFirst pat rep w = w"
      hence "(\<forall>i<Suc (length (a # w)). \<not> prefix pat (drop i (a # w)))
             \<and> replaceFirst pat rep (a # w) = a # w"
        using False r by (simp add: All_less_Suc2 [of "Suc (length w)"])
      thus ?thesis by blast
    qed
  qed
qed

lemma replaceFirst_firstReplaced:
  "pat \<noteq> [] \<Longrightarrow> firstReplaced pat rep u (replaceFirst pat rep u)"
  using replaceFirst_cases [of pat u rep]
  unfolding firstReplaced_def by (auto simp: less_Suc_eq_le)

lemma firstReplaced_unique:
  assumes "firstReplaced pat rep u v" and "firstReplaced pat rep u v'"
  shows "v = v'"
proof -
  have least: "\<And>n m. prefix pat (drop n u) \<Longrightarrow> \<forall>i<n. \<not> prefix pat (drop i u) \<Longrightarrow>
                 prefix pat (drop m u) \<Longrightarrow> \<forall>i<m. \<not> prefix pat (drop i u) \<Longrightarrow> n = m"
    by (metis nat_neq_iff)
  show ?thesis
    using assms unfolding firstReplaced_def
    by (auto dest: least)
qed

text \<open>The same relation with the text before and after the match named.\<close>

lemma firstReplaced_iff:
  "firstReplaced pat rep u v \<longleftrightarrow>
     (\<exists>p s. u = p @ pat @ s \<and> (\<forall>i<length p. \<not> prefix pat (drop i u)) \<and> v = p @ rep @ s)
     \<or> ((\<forall>i\<le>length u. \<not> prefix pat (drop i u)) \<and> v = u)"
proof -
  have a: "(\<exists>n \<in> {0..length u}. prefix pat (drop n u) \<and> (\<forall>i \<in> {0..<n}. \<not> prefix pat (drop i u))
         \<and> v = take n u @ rep @ drop (n + length pat) u)
        \<longleftrightarrow> (\<exists>p s. u = p @ pat @ s \<and> (\<forall>i<length p. \<not> prefix pat (drop i u)) \<and> v = p @ rep @ s)"
  proof
    assume "\<exists>n \<in> {0..length u}. prefix pat (drop n u) \<and> (\<forall>i \<in> {0..<n}. \<not> prefix pat (drop i u))
         \<and> v = take n u @ rep @ drop (n + length pat) u"
    then obtain n where n: "n \<le> length u" "prefix pat (drop n u)"
      "\<forall>i<n. \<not> prefix pat (drop i u)" "v = take n u @ rep @ drop (n + length pat) u" by auto
    from n(2) obtain s where s: "drop n u = pat @ s" by (auto simp: prefix_def)
    have "u = take n u @ pat @ s" using s by (metis append_take_drop_id)
    moreover have "drop (n + length pat) u = s"
      using s by (metis add.commute append_eq_conv_conj drop_drop)
    moreover have "length (take n u) = n" using n(1) by simp
    ultimately show "\<exists>p s. u = p @ pat @ s \<and> (\<forall>i<length p. \<not> prefix pat (drop i u)) \<and> v = p @ rep @ s"
      using n(3,4) by metis
  next
    assume "\<exists>p s. u = p @ pat @ s \<and> (\<forall>i<length p. \<not> prefix pat (drop i u)) \<and> v = p @ rep @ s"
    then obtain p s where p: "u = p @ pat @ s" "\<forall>i<length p. \<not> prefix pat (drop i u)"
      "v = p @ rep @ s" by blast
    have "length p \<in> {0..length u}" using p(1) by simp
    moreover have "prefix pat (drop (length p) u)" using p(1) by simp
    moreover have "\<forall>i \<in> {0..<length p}. \<not> prefix pat (drop i u)" using p(2) by simp
    moreover have "v = take (length p) u @ rep @ drop (length p + length pat) u"
      using p(1,3) by (simp add: add.commute)
    ultimately show "\<exists>n \<in> {0..length u}. prefix pat (drop n u) \<and> (\<forall>i \<in> {0..<n}. \<not> prefix pat (drop i u))
         \<and> v = take n u @ rep @ drop (n + length pat) u" by blast
  qed
  show ?thesis unfolding firstReplaced_def a by auto
qed

lemma no_match:
  assumes "\<not> set pat \<subseteq> set u"
  shows "\<not> prefix pat (drop i u)"
proof
  assume "prefix pat (drop i u)"
  hence "set pat \<subseteq> set (drop i u)" by (rule set_mono_prefix)
  moreover have "set (drop i u) \<subseteq> set u" by (rule set_drop_subset)
  ultimately show False using assms by blast
qed

lemma firstReplaced_absent: "\<not> set pat \<subseteq> set u \<Longrightarrow> firstReplaced pat rep u u"
  by (simp add: firstReplaced_def no_match)

lemma firstReplaced_head: "firstReplaced pat rep (pat @ s) (rep @ s)"
proof -
  have "pat @ s = [] @ pat @ s \<and> (\<forall>i<length ([]::string). \<not> prefix pat (drop i (pat @ s)))
        \<and> rep @ s = [] @ rep @ s" by simp
  thus ?thesis unfolding firstReplaced_iff by blast
qed

text \<open>
  C10: \<^verbatim>\<open>templateToUrl\<close> substitutes only the first occurrence of each of \<^verbatim>\<open>{x}\<close>,
  \<^verbatim>\<open>{y}\<close> and \<^verbatim>\<open>{z}\<close>, and every later occurrence is left verbatim. The resolved URL
  is reached from the template in three steps, for \<^verbatim>\<open>{x}\<close>, then \<^verbatim>\<open>{y}\<close>, then \<^verbatim>\<open>{z}\<close>,
  each of which replaces the placeholder where it first starts by the decimal text of
  the coordinate and copies the text before and after that place (or copies the whole
  text when the placeholder does not occur); and it is the only text reached in this
  way. By \<open>firstReplaced_iff\<close> a step from \<open>u\<close> to \<open>v\<close> is: \<open>u = p @ pat @ s\<close> with no
  match starting in \<open>p\<close>, and \<open>v = p @ rep @ s\<close>.
\<close>

theorem C10_first_occurrence_only:
  "(\<exists>u1 u2. firstReplaced ''{x}'' (numToString (cx c)) u u1
           \<and> firstReplaced ''{y}'' (numToString (cy c)) u1 u2
           \<and> firstReplaced ''{z}'' (numToString (cz c)) u2 (templateToUrl u c))
   \<and> (\<forall>u1 u2 v. firstReplaced ''{x}'' (numToString (cx c)) u u1
           \<and> firstReplaced ''{y}'' (numToString (cy c)) u1 u2
           \<and> firstReplaced ''{z}'' (numToString (cz c)) u2 v
         \<longrightarrow> v = templateToUrl u c)"
proof -
  let ?u1 = "replaceFirst ''{x}'' (numToString (cx c)) u"
  let ?u2 = "replaceFirst ''{y}'' (numToString (cy c)) ?u1"
  have t: "templateToUrl u c = replaceFirst ''{z}'' (numToString (cz c)) ?u2"
    by (simp add: templateToUrl_def Let_def)
  have x: "firstReplaced ''{x}'' (numToString (cx c)) u ?u1"
    by (rule replaceFirst_firstReplaced) simp
  have y: "firstReplaced ''{y}'' (numToString (cy c)) ?u1 ?u2"
    by (rule replaceFirst_firstReplaced) simp
  have z: "firstReplaced ''{z}'' (numToString (cz c)) ?u2 (templateToUrl u c)"
    unfolding t by (rule replaceFirst_firstReplaced) simp
  have ex: "\<exists>u1 u2. firstReplaced ''{x}'' (numToString (cx c)) u u1
           \<and> firstReplaced ''{y}'' (numToString (cy c)) u1 u2
           \<and> firstReplaced ''{z}'' (numToString (cz c)) u2 (templateToUrl u c)"
    using x y z by blast
  have un: "\<forall>u1 u2 v. firstReplaced ''{x}'' (numToString (cx c)) u u1
           \<and> firstReplaced ''{y}'' (numToString (cy c)) u1 u2
           \<and> firstReplaced ''{z}'' (numToString (cz c)) u2 v
         \<longrightarrow> v = templateToUrl u c"
  proof (intro allI impI)
    fix u1 u2 v
    assume h: "firstReplaced ''{x}'' (numToString (cx c)) u u1
           \<and> firstReplaced ''{y}'' (numToString (cy c)) u1 u2
           \<and> firstReplaced ''{z}'' (numToString (cz c)) u2 v"
    hence "u1 = ?u1" using x firstReplaced_unique by blast
    moreover from this h have "u2 = ?u2" using y firstReplaced_unique by blast
    ultimately show "v = templateToUrl u c" using h z firstReplaced_unique by blast
  qed
  from ex un show ?thesis by (rule conjI)
qed

theorem C10_witness:
  "templateToUrl ''{x}/{x}'' \<lparr>cz = 0, cx = 2, cy = 0\<rparr> = ''2/{x}''
   \<and> \<not> (\<exists>u1 u2. firstReplaced ''{x}'' ''2'' ''{x}/{x}'' u1
                \<and> firstReplaced ''{y}'' ''0'' u1 u2
                \<and> firstReplaced ''{z}'' ''0'' u2 ''{x}/2'')"
proof -
  let ?c = "\<lparr>cz = 0, cx = 2, cy = 0\<rparr>"
  note T = C10_first_occurrence_only [of ?c "''{x}/{x}''"]
  have x: "firstReplaced ''{x}'' (numToString (cx ?c)) ''{x}/{x}'' ''2/{x}''"
    using firstReplaced_head [of "''{x}''" "''2''" "''/{x}''"] by (simp add: numToString_samples)
  have y: "firstReplaced ''{y}'' (numToString (cy ?c)) ''2/{x}'' ''2/{x}''"
    by (rule firstReplaced_absent) simp
  have z: "firstReplaced ''{z}'' (numToString (cz ?c)) ''2/{x}'' ''2/{x}''"
    by (rule firstReplaced_absent) simp
  from T x y z have r: "''2/{x}'' = templateToUrl ''{x}/{x}'' ?c" by blast
  have "\<not> (\<exists>u1 u2. firstReplaced ''{x}'' ''2'' ''{x}/{x}'' u1
                \<and> firstReplaced ''{y}'' ''0'' u1 u2
                \<and> firstReplaced ''{z}'' ''0'' u2 ''{x}/2'')"
  proof
    assume "\<exists>u1 u2. firstReplaced ''{x}'' ''2'' ''{x}/{x}'' u1
                \<and> firstReplaced ''{y}'' ''0'' u1 u2
                \<and> firstReplaced ''{z}'' ''0'' u2 ''{x}/2''"
    hence "\<exists>u1 u2. firstReplaced ''{x}'' (numToString (cx ?c)) ''{x}/{x}'' u1
                \<and> firstReplaced ''{y}'' (numToString (cy ?c)) u1 u2
                \<and> firstReplaced ''{z}'' (numToString (cz ?c)) u2 ''{x}/2''"
      by (simp add: numToString_samples)
    with T have "''{x}/2'' = templateToUrl ''{x}/{x}'' ?c" by blast
    hence "''{x}/2'' = ''2/{x}''" by (simp only: r [symmetric])
    thus False by simp
  qed
  with r show ?thesis by simp
qed

section \<open>The iterator: lemmas\<close>

lemma jobsFrom_None:
  "getNextJob options it = (None, it') \<Longrightarrow> jobsFrom options it = ([], it')"
  by (subst jobsFrom.simps) simp

lemma jobsFrom_Some:
  "getNextJob options it = (Some j, it') \<Longrightarrow>
   jobsFrom options it = (j # fst (jobsFrom options it'), snd (jobsFrom options it'))"
  by (subst jobsFrom.simps) (simp add: case_prod_beta)

lemma getNextJob_exhausted:
  "getNextJob options it = (None, it') \<Longrightarrow> getNextJob options it' = (None, it')"
  by (auto simp: getNextJob_def Let_def split: if_splits)

lemma getNextJob_job:
  "getNextJob options it = (Some j, it') \<Longrightarrow> j = newJob options (coords it')"
  by (auto simp: getNextJob_def Let_def split: if_splits)

lemma getNextJob_aligned:
  "getNextJob options it = (r, it') \<Longrightarrow> aligned options it \<Longrightarrow> aligned options it'"
  by (auto simp: getNextJob_def Let_def aligned_def split: if_splits)

lemma getNextJob_less:
  "getNextJob options it = (Some j, it') \<Longrightarrow> coords_less (coords it) (coords it')"
  by (auto simp: getNextJob_def Let_def coords_less_def split: if_splits)

lemma getNextJob_zoom:
  "getNextJob options it = (Some j, it') \<Longrightarrow> cz (coords it') \<le> zoom_max (zoom options) \<and> cz (coords it) \<le> cz (coords it')"
  by (auto simp: getNextJob_def Let_def split: if_splits)



lemma seed_aligned: "aligned options (seed options)"
  by (simp add: seed_def aligned_def Let_def)

lemma iter_induct [case_names step]:
  assumes "\<And>it. (\<And>j it'. getNextJob options it = (Some j, it') \<Longrightarrow> P it') \<Longrightarrow> P it"
  shows "P it"
proof -
  have "wf (inv_image (less_than <*lex*> less_than <*lex*> less_than) (remaining options))"
    by (intro wf_inv_image wf_lex_prod wf_less_than)
  thus ?thesis
  proof (induction it rule: wf_induct_rule)
    case (less it)
    show ?case
    proof (rule assms)
      fix j it'
      assume "getNextJob options it = (Some j, it')"
      from getNextJob_remaining [OF this] show "P it'" by (intro less) simp
    qed
  qed
qed


lemma jobsFrom_exhausted:
  "getNextJob options (snd (jobsFrom options it)) = (None, snd (jobsFrom options it))"
proof (induction it rule: iter_induct [where options = options])
  case (step it)
  obtain r it' where g: "getNextJob options it = (r, it')" by (cases "getNextJob options it")
  show ?case
  proof (cases r)
    case None
    with g show ?thesis by (simp add: jobsFrom_None getNextJob_exhausted)
  next
    case (Some j)
    with g have g': "getNextJob options it = (Some j, it')" by simp
    from step.IH [OF g'] show ?thesis by (simp add: jobsFrom_Some [OF g'])
  qed
qed

lemma coords_less_trans: "coords_less a b \<Longrightarrow> coords_less b c \<Longrightarrow> coords_less a c"
  by (auto simp: coords_less_def)

lemma jobsFrom_above:
  "j \<in> set (fst (jobsFrom options it)) \<Longrightarrow> coords_less (coords it) (job_coords j)"
proof (induction it rule: iter_induct [where options = options])
  case (step it)
  obtain r it' where g: "getNextJob options it = (r, it')" by (cases "getNextJob options it")
  show ?case
  proof (cases r)
    case None
    with g step.prems show ?thesis by (simp add: jobsFrom_None)
  next
    case (Some j')
    with g have g': "getNextJob options it = (Some j', it')" by simp
    have less: "coords_less (coords it) (coords it')" by (rule getNextJob_less [OF g'])
    have j': "job_coords j' = coords it'" using getNextJob_job [OF g'] by (simp add: newJob_def)
    from step.prems have "j = j' \<or> j \<in> set (fst (jobsFrom options it'))"
      by (simp add: jobsFrom_Some [OF g'])
    thus ?thesis
    proof
      assume "j = j'" thus ?thesis using less j' by simp
    next
      assume "j \<in> set (fst (jobsFrom options it'))"
      from step.IH [OF g' this] less show ?thesis by (blast intro: coords_less_trans)
    qed
  qed
qed

lemma jobsFrom_sorted:
  "sorted_wrt coords_less (coords it # map job_coords (fst (jobsFrom options it)))"
proof (induction it rule: iter_induct [where options = options])
  case (step it)
  obtain r it' where g: "getNextJob options it = (r, it')" by (cases "getNextJob options it")
  show ?case
  proof (cases r)
    case None
    with g show ?thesis by (simp add: jobsFrom_None)
  next
    case (Some j')
    with g have g': "getNextJob options it = (Some j', it')" by simp
    have j': "job_coords j' = coords it'" using getNextJob_job [OF g'] by (simp add: newJob_def)
    have "\<forall>c \<in> set (map job_coords (fst (jobsFrom options it))). coords_less (coords it) c"
      using jobsFrom_above [of _ options it] by auto
    moreover have "sorted_wrt coords_less (map job_coords (fst (jobsFrom options it)))"
      using step.IH [OF g'] by (simp add: jobsFrom_Some [OF g'] j')
    ultimately show ?thesis by simp
  qed
qed

lemma Coords_update:
  fixes c :: Coords
  shows "c\<lparr>cy := v\<rparr> = \<lparr>cz = cz c, cx = cx c, cy = v\<rparr>"
    and "c\<lparr>cx := u, cy := v\<rparr> = \<lparr>cz = cz c, cx = u, cy = v\<rparr>"
  by (cases c, simp)+

lemma getNextJob_successor:
  assumes "aligned options it" "cz (coords it) \<le> zoom_max (zoom options)"
  shows "getNextJob options it = (r, it') \<Longrightarrow>
         r = map_option (newJob options) (successor options (coords it))
         \<and> (r \<noteq> None \<longrightarrow> successor options (coords it) = Some (coords it'))"
  using assms
  by (auto simp: getNextJob_def successor_def aligned_def Let_def Coords_update split: if_splits)

lemma jobsFrom_chain:
  assumes "aligned options it" "cz (coords it) \<le> zoom_max (zoom options)"
  shows "successively (\<lambda>a b. successor options a = Some b)
           (coords it # map job_coords (fst (jobsFrom options it)))
         \<and> successor options (last (coords it # map job_coords (fst (jobsFrom options it)))) = None"
  using assms
proof (induction it rule: iter_induct [where options = options])
  case (step it)
  obtain r it' where g: "getNextJob options it = (r, it')" by (cases "getNextJob options it")
  note s = getNextJob_successor [OF step.prems g]
  show ?case
  proof (cases r)
    case None
    with g s show ?thesis by (simp add: jobsFrom_None)
  next
    case (Some j')
    with g have g': "getNextJob options it = (Some j', it')" by simp
    have j': "job_coords j' = coords it'" using getNextJob_job [OF g'] by (simp add: newJob_def)
    have "aligned options it'" using g' step.prems(1) by (rule getNextJob_aligned)
    moreover have "cz (coords it') \<le> zoom_max (zoom options)" using getNextJob_zoom [OF g'] by simp
    ultimately have IH: "successively (\<lambda>a b. successor options a = Some b)
           (coords it' # map job_coords (fst (jobsFrom options it')))
         \<and> successor options (last (coords it' # map job_coords (fst (jobsFrom options it')))) = None"
      by (rule step.IH [OF g'])
    have "successor options (coords it) = Some (coords it')" using s Some by simp
    thus ?thesis using IH by (simp add: jobsFrom_Some [OF g'] j')
  qed
qed

lemma jobsFrom_nested:
  assumes "aligned options it" "cz (coords it) \<le> zoom_max (zoom options)"
    and "north (bounds it) \<le> cy (coords it)" "cy (coords it) \<le> south (bounds it)"
    and "west (bounds it) \<le> cx (coords it)" "cx (coords it) \<le> east (bounds it)"
    and "\<forall>zm. cz (coords it) < zm \<and> zm \<le> zoom_max (zoom options)
           \<longrightarrow> ordered (bboxToBounds (bbox options) zm)"
  shows "map job_coords (fst (jobsFrom options it)) =
           map (\<lambda>row. \<lparr> cz = cz (coords it), cx = cx (coords it), cy = row \<rparr>)
               [cy (coords it) + 1..south (bounds it)]
           @ concat (map (column (cz (coords it)) (bounds it)) [cx (coords it) + 1..east (bounds it)])
           @ concat (map (level options) [cz (coords it) + 1..zoom_max (zoom options)])"
  using assms
proof (induction it rule: iter_induct [where options = options])
  case (step it)
  let ?z = "cz (coords it)" and ?x = "cx (coords it)" and ?y = "cy (coords it)"
  let ?b = "bounds it"
  obtain r it' where g: "getNextJob options it = (r, it')" by (cases "getNextJob options it")
  note al = getNextJob_aligned [OF g step.prems(1)]
  consider (row) "?y + 1 \<le> south ?b"
    | (col) "\<not> ?y + 1 \<le> south ?b" "?x + 1 \<le> east ?b"
    | (zoom) "\<not> ?y + 1 \<le> south ?b" "\<not> ?x + 1 \<le> east ?b" "?z + 1 \<le> zoom_max (zoom options)"
    | (stop) "\<not> ?y + 1 \<le> south ?b" "\<not> ?x + 1 \<le> east ?b" "\<not> ?z + 1 \<le> zoom_max (zoom options)"
    by blast
  thus ?case
  proof cases
    case row
    have g': "getNextJob options it = (Some (newJob options ((coords it)\<lparr>cy := ?y + 1\<rparr>)),
               it\<lparr>count := count it + 1, coords := (coords it)\<lparr>cy := ?y + 1\<rparr>\<rparr>)"
      using row step.prems(2) by (simp add: getNextJob_def Let_def)
    let ?it' = "it\<lparr>count := count it + 1, coords := (coords it)\<lparr>cy := ?y + 1\<rparr>\<rparr>"
    have "aligned options ?it'" using g' step.prems(1) by (rule getNextJob_aligned)
    hence IH: "map job_coords (fst (jobsFrom options ?it')) =
           map (\<lambda>row. \<lparr> cz = ?z, cx = ?x, cy = row \<rparr>) [?y + 1 + 1..south ?b]
           @ concat (map (column ?z ?b) [?x + 1..east ?b])
           @ concat (map (level options) [?z + 1..zoom_max (zoom options)])"
      using step.IH [OF g'] step.prems row by simp
    have "[?y + 1..south ?b] = (?y + 1) # [?y + 1 + 1..south ?b]"
      using row by (simp add: upto_rec1)
    thus ?thesis using IH by (simp add: jobsFrom_Some [OF g'] newJob_def Coords_update)
  next
    case col
    let ?c' = "(coords it)\<lparr>cx := ?x + 1, cy := north ?b\<rparr>"
    let ?it' = "it\<lparr>count := count it + 1, coords := ?c'\<rparr>"
    have g': "getNextJob options it = (Some (newJob options ?c'), ?it')"
      using col step.prems(2) by (simp add: getNextJob_def Let_def)
    have "aligned options ?it'" using g' step.prems(1) by (rule getNextJob_aligned)
    hence IH: "map job_coords (fst (jobsFrom options ?it')) =
           map (\<lambda>row. \<lparr> cz = ?z, cx = ?x + 1, cy = row \<rparr>) [north ?b + 1..south ?b]
           @ concat (map (column ?z ?b) [?x + 1 + 1..east ?b])
           @ concat (map (level options) [?z + 1..zoom_max (zoom options)])"
      using step.IH [OF g'] step.prems col by simp
    have e1: "[?y + 1..south ?b] = []" using col by simp
    have e2: "[?x + 1..east ?b] = (?x + 1) # [?x + 1 + 1..east ?b]"
      using col by (simp add: upto_rec1)
    have e3: "[north ?b..south ?b] = north ?b # [north ?b + 1..south ?b]"
      using step.prems by (simp add: upto_rec1)
    have cl: "column ?z ?b (?x + 1) =
        \<lparr>cz = ?z, cx = ?x + 1, cy = north ?b\<rparr>
        # map (\<lambda>row. \<lparr> cz = ?z, cx = ?x + 1, cy = row \<rparr>) [north ?b + 1..south ?b]"
      unfolding column_def e3 by simp
    show ?thesis
      unfolding jobsFrom_Some [OF g'] e1 e2
      using IH by (simp add: newJob_def cl Coords_update)
  next
    case zoom
    let ?bn = "bboxToBounds (bbox options) (?z + 1)"
    let ?c' = "\<lparr>cz = ?z + 1, cx = west ?bn, cy = north ?bn\<rparr>"
    let ?it' = "it\<lparr>count := count it + 1, coords := ?c', bounds := ?bn\<rparr>"
    have g': "getNextJob options it = (Some (newJob options ?c'), ?it')"
      using zoom step.prems(2) by (simp add: getNextJob_def Let_def)
    have ord: "ordered ?bn" using step.prems(7) zoom by simp
    have "aligned options ?it'" using g' step.prems(1) by (rule getNextJob_aligned)
    hence IH: "map job_coords (fst (jobsFrom options ?it')) =
           map (\<lambda>row. \<lparr> cz = ?z + 1, cx = west ?bn, cy = row \<rparr>) [north ?bn + 1..south ?bn]
           @ concat (map (column (?z + 1) ?bn) [west ?bn + 1..east ?bn])
           @ concat (map (level options) [?z + 1 + 1..zoom_max (zoom options)])"
      using step.IH [OF g'] step.prems zoom ord by (simp add: ordered_def)
    have e1: "[?y + 1..south ?b] = []" using zoom by simp
    have e2: "[?x + 1..east ?b] = []" using zoom by simp
    have e3: "[?z + 1..zoom_max (zoom options)] = (?z + 1) # [?z + 1 + 1..zoom_max (zoom options)]"
      using zoom by (simp add: upto_rec1)
    have e4: "[west ?bn..east ?bn] = west ?bn # [west ?bn + 1..east ?bn]"
      using ord by (simp add: upto_rec1 ordered_def)
    have e5: "[north ?bn..south ?bn] = north ?bn # [north ?bn + 1..south ?bn]"
      using ord by (simp add: upto_rec1 ordered_def)
    have cl: "column (?z + 1) ?bn (west ?bn) =
        ?c' # map (\<lambda>row. \<lparr> cz = ?z + 1, cx = west ?bn, cy = row \<rparr>) [north ?bn + 1..south ?bn]"
      unfolding column_def e5 by simp
    have lv: "level options (?z + 1) =
        (?c' # map (\<lambda>row. \<lparr> cz = ?z + 1, cx = west ?bn, cy = row \<rparr>) [north ?bn + 1..south ?bn])
        @ concat (map (column (?z + 1) ?bn) [west ?bn + 1..east ?bn])"
      unfolding level_def Let_def e4 by (simp add: cl)
    show ?thesis
      unfolding jobsFrom_Some [OF g'] e1 e2 e3
      using IH by (simp add: newJob_def lv)
  next
    case stop
    have g': "getNextJob options it = (None, it\<lparr>count := count it + 1,
                coords := \<lparr>cz = ?z + 1, cx = west (bboxToBounds (bbox options) (?z + 1)),
                           cy = north (bboxToBounds (bbox options) (?z + 1))\<rparr>,
                bounds := bboxToBounds (bbox options) (?z + 1)\<rparr>)"
      using stop step.prems(2) by (simp add: getNextJob_def Let_def)
    show ?thesis using stop by (simp add: jobsFrom_None [OF g'])
  qed
qed

lemma addresses_nested:
  assumes "zoom_min (zoom options) \<le> zoom_max (zoom options)"
    and "\<forall>zm. zoom_min (zoom options) \<le> zm \<and> zm \<le> zoom_max (zoom options)
           \<longrightarrow> ordered (bboxToBounds (bbox options) zm)"
  shows "addresses options = nestedOrder options"
proof -
  let ?z = "zoom_min (zoom options)"
  let ?b = "bboxToBounds (bbox options) ?z"
  let ?it = "seed options"
  have ord: "ordered ?b" using assms by simp
  have it: "coords ?it = \<lparr>cz = ?z, cx = west ?b, cy = north ?b\<rparr>" "bounds ?it = ?b"
    by (simp_all add: seed_def Let_def)
  have "map job_coords (fst (jobsFrom options ?it)) =
           map (\<lambda>row. \<lparr> cz = cz (coords ?it), cx = cx (coords ?it), cy = row \<rparr>)
               [cy (coords ?it) + 1..south (bounds ?it)]
           @ concat (map (column (cz (coords ?it)) (bounds ?it)) [cx (coords ?it) + 1..east (bounds ?it)])
           @ concat (map (level options) [cz (coords ?it) + 1..zoom_max (zoom options)])"
    using assms ord by (intro jobsFrom_nested seed_aligned) (simp_all add: it ordered_def)
  hence tl: "map job_coords (fst (jobsFrom options ?it)) =
           map (\<lambda>row. \<lparr> cz = ?z, cx = west ?b, cy = row \<rparr>) [north ?b + 1..south ?b]
           @ concat (map (column ?z ?b) [west ?b + 1..east ?b])
           @ concat (map (level options) [?z + 1..zoom_max (zoom options)])"
    by (simp add: it)
  have e3: "[?z..zoom_max (zoom options)] = ?z # [?z + 1..zoom_max (zoom options)]"
    using assms(1) by (simp add: upto_rec1)
  have e4: "[west ?b..east ?b] = west ?b # [west ?b + 1..east ?b]"
    using ord by (simp add: upto_rec1 ordered_def)
  have e5: "[north ?b..south ?b] = north ?b # [north ?b + 1..south ?b]"
    using ord by (simp add: upto_rec1 ordered_def)
  have cl: "column ?z ?b (west ?b) =
        \<lparr>cz = ?z, cx = west ?b, cy = north ?b\<rparr>
        # map (\<lambda>row. \<lparr> cz = ?z, cx = west ?b, cy = row \<rparr>) [north ?b + 1..south ?b]"
    unfolding column_def e5 by simp
  have lv: "level options ?z =
        (\<lparr>cz = ?z, cx = west ?b, cy = north ?b\<rparr>
         # map (\<lambda>row. \<lparr> cz = ?z, cx = west ?b, cy = row \<rparr>) [north ?b + 1..south ?b])
        @ concat (map (column ?z ?b) [west ?b + 1..east ?b])"
    unfolding level_def Let_def e4 by (simp add: cl)
  show ?thesis
    unfolding addresses_def nestedOrder_def e3 tl by (simp add: lv it)
qed



section \<open>Directories and the tile request: lemmas\<close>

lemma existsSync_parent:
  "existsSync d (p @ ''/'' @ r) \<Longrightarrow> existsSync d p"
  by (auto simp: existsSync_def list_ex_iff prefix_def)

lemma existsSync_append:
  "existsSync (d @ [q]) p \<longleftrightarrow> existsSync d p \<or> q = p \<or> prefix (p @ ''/'') q"
  by (auto simp: existsSync_def list_ex_iff)

lemma createDir_existing: "existsSync d p \<Longrightarrow> createDir env p d = (True, d)"
  by (simp add: createDir_def)

lemma createDir_disk:
  "snd (createDir env p d) = d \<or> snd (createDir env p d) = d @ [p]"
  by (simp add: createDir_def split: MkdirResult.splits)

lemma createDir_keeps_absent:
  assumes "\<not> existsSync d q" "length p < length q"
  shows "\<not> existsSync (snd (createDir env p d)) q"
proof -
  have "p \<noteq> q" using assms(2) by auto
  moreover have "\<not> prefix (q @ ''/'') p"
  proof
    assume "prefix (q @ ''/'') p"
    hence "length (q @ ''/'') \<le> length p" by (rule prefix_length_le)
    thus False using assms(2) by simp
  qed
  ultimately show ?thesis
    using assms(1) createDir_disk [of env p d] by (auto simp: existsSync_append)
qed

lemma getTile_existing:
  assumes "existsSync d (out @ ''/'' @ numToString (cz c) @ ''/'' @ numToString (cx c) @ ''/''
                          @ numToString (cy c) @ ''.'' @ fmt)"
  shows "getTile env u out c ref fmt d = (None, d, [], Continues)"
proof -
  let ?p1 = "out @ ''/'' @ numToString (cz c)"
  let ?p2 = "?p1 @ ''/'' @ numToString (cx c)"
  let ?img = "?p2 @ ''/'' @ numToString (cy c) @ ''.'' @ fmt"
  have img: "existsSync d ?img" using assms by simp
  hence p2: "existsSync d ?p2" by (rule existsSync_parent)
  hence p1: "existsSync d ?p1" by (rule existsSync_parent)
  show ?thesis
    unfolding getTile_def Let_def createDir_existing [OF p1] prod.case
      createDir_existing [OF p2]
    using img by simp
qed

text \<open>
  A tile that is not there and whose request fails: the callback is called without an
  error, the request was made, the image is still absent, and the process ends.
\<close>

lemma getTile_failed_fetch:
  assumes "\<not> existsSync d (out @ ''/'' @ numToString (cz c) @ ''/'' @ numToString (cx c) @ ''/''
                          @ numToString (cy c) @ ''.'' @ fmt)"
    and "\<not> fetchOk env (templateToUrl u c)"
  shows "\<not> existsSync (fst (snd (getTile env u out c ref fmt d)))
              (out @ ''/'' @ numToString (cz c) @ ''/'' @ numToString (cx c) @ ''/''
                          @ numToString (cy c) @ ''.'' @ fmt)"
proof -
  let ?p1 = "out @ ''/'' @ numToString (cz c)"
  let ?p2 = "?p1 @ ''/'' @ numToString (cx c)"
  let ?img = "?p2 @ ''/'' @ numToString (cy c) @ ''.'' @ fmt"
  let ?d1 = "snd (createDir env ?p1 d)"
  let ?d2 = "snd (createDir env ?p2 ?d1)"
  have a: "\<not> existsSync d ?img" using assms(1) by simp
  have "length ?p1 < length ?img" by simp
  with a have d1: "\<not> existsSync ?d1 ?img" by (rule createDir_keeps_absent)
  have "length ?p2 < length ?img" by simp
  with d1 have d2: "\<not> existsSync ?d2 ?img" by (rule createDir_keeps_absent)
  have "fst (snd (getTile env u out c ref fmt d)) = ?d1
        \<or> fst (snd (getTile env u out c ref fmt d)) = ?d2"
    using assms(2) d2 by (simp add: getTile_def Let_def case_prod_beta)
  thus ?thesis using d1 d2 by auto
qed

lemma getTile_failed_fetch_ends:
  assumes "\<not> existsSync d (out @ ''/'' @ numToString (cz c) @ ''/'' @ numToString (cx c) @ ''/''
                          @ numToString (cy c) @ ''.'' @ fmt)"
    and "\<not> fetchOk env (templateToUrl u c)"
    and "\<forall>p. mkdirSync env p \<noteq> MkdirFailed"
  shows "fst (getTile env u out c ref fmt d) = None"
    and "fst (snd (snd (getTile env u out c ref fmt d))) = [(templateToUrl u c, ref)]"
    and "snd (snd (snd (getTile env u out c ref fmt d))) = Ends"
proof -
  let ?p1 = "out @ ''/'' @ numToString (cz c)"
  let ?p2 = "?p1 @ ''/'' @ numToString (cx c)"
  let ?img = "?p2 @ ''/'' @ numToString (cy c) @ ''.'' @ fmt"
  let ?d1 = "snd (createDir env ?p1 d)"
  let ?d2 = "snd (createDir env ?p2 ?d1)"
  have m1: "fst (createDir env ?p1 d)" and m2: "fst (createDir env ?p2 ?d1)"
    using assms(3) by (cases "mkdirSync env ?p1"; cases "mkdirSync env ?p2";
      auto simp: createDir_def)+
  have a: "\<not> existsSync d ?img" using assms(1) by simp
  have "length ?p1 < length ?img" by simp
  with a have d1: "\<not> existsSync ?d1 ?img" by (rule createDir_keeps_absent)
  have "length ?p2 < length ?img" by simp
  with d1 have d2: "\<not> existsSync ?d2 ?img" by (rule createDir_keeps_absent)
  show "fst (getTile env u out c ref fmt d) = None"
    and "fst (snd (snd (getTile env u out c ref fmt d))) = [(templateToUrl u c, ref)]"
    and "snd (snd (snd (getTile env u out c ref fmt d))) = Ends"
    using m1 m2 d2 assms(2) by (simp_all add: getTile_def Let_def case_prod_beta)
qed

text \<open>Where every request and every write succeeds no call ends the process.\<close>

lemma getTile_continues:
  assumes "\<forall>u. fetchOk env u" and "\<forall>p. writeStream env p = Written"
  shows "snd (snd (snd (getTile env u out c ref fmt d))) = Continues"
  using assms by (simp add: getTile_def Let_def case_prod_beta)

lemma getTile_seq_continues:
  assumes "\<forall>u. fetchOk env u" and "\<forall>p. writeStream env p = Written"
  shows "snd (snd (snd (getTile_seq env u out c d))) = Continues"
  using assms by (simp add: getTile_seq_def Let_def case_prod_beta)

lemma getTile_error_continues:
  "fst (getTile env u out c ref fmt d) \<noteq> None \<Longrightarrow>
   snd (snd (snd (getTile env u out c ref fmt d))) = Continues"
  by (auto simp: getTile_def Let_def case_prod_beta split: if_splits WriteResult.splits)

lemma getTile_seq_error_continues:
  "fst (getTile_seq env u out c d) \<noteq> None \<Longrightarrow>
   snd (snd (snd (getTile_seq env u out c d))) = Continues"
  by (auto simp: getTile_seq_def Let_def case_prod_beta split: if_splits WriteResult.splits)

lemma getTile_failed_fetch_reports:
  assumes "fst (createDir env (out @ ''/'' @ numToString (cz c)) d)"
    and "fst (createDir env (out @ ''/'' @ numToString (cz c) @ ''/'' @ numToString (cx c))
                (snd (createDir env (out @ ''/'' @ numToString (cz c)) d)))"
  shows "fst (getTile env u out c ref fmt d) = None"
  using assms by (simp add: getTile_def Let_def case_prod_beta split: WriteResult.splits)
section \<open>The dispatcher: lemmas\<close>

lemma onMessage_iter:
  "iter (onMessage options numCPUs w msg m) = snd (getNextJob options (iter m))"
  by (simp add: onMessage_def stopChildProcesses_def Let_def case_prod_beta split: option.splits)

lemma onMessage_sent:
  "sent (onMessage options numCPUs w msg m) =
     sent m @ (case fst (getNextJob options (iter m)) of Some j \<Rightarrow> [(w, j)] | None \<Rightarrow> [])"
  by (simp add: onMessage_def stopChildProcesses_def Let_def case_prod_beta split: option.splits)

lemma onMessage_stopped:
  "stopped (onMessage options numCPUs w msg m) =
     stopped m + (if fst (getNextJob options (iter m)) = None then 1 else 0)"
  by (simp add: onMessage_def stopChildProcesses_def Let_def case_prod_beta split: option.splits)

lemma onMessage_callbacks:
  "callbacks (onMessage options numCPUs w msg m) =
     callbacks m @ (if fst (getNextJob options (iter m)) = None \<and> \<not> stopped m + 1 < numCPUs
                    then [None] else [])"
  by (simp add: onMessage_def stopChildProcesses_def Let_def case_prod_beta split: option.splits)

lemma onMessage_killed:
  "killed (onMessage options numCPUs w msg m) =
     (killed m \<or> fst (getNextJob options (iter m)) = None \<and> \<not> stopped m + 1 < numCPUs)"
  by (simp add: onMessage_def stopChildProcesses_def Let_def case_prod_beta split: option.splits)

lemma onMessage_console:
  "console (onMessage options numCPUs w msg m) =
     console m @ (if success msg then [LoggedError (err msg)] else [])
     @ (if fst (getNextJob options (iter m)) = None \<and> \<not> stopped m + 1 < numCPUs \<and> verbose options
        then [Downloaded (count (snd (getNextJob options (iter m))))] else [])"
  by (simp add: onMessage_def stopChildProcesses_def Let_def case_prod_beta split: option.splits)

lemma report_idle: "inbox c = [] \<Longrightarrow> report options numCPUs env k c = c"
  by (simp add: report_def)

lemma report_master:
  assumes "inbox c \<noteq> []"
  shows "\<exists>w msg. master (report options numCPUs env k c) = onMessage options numCPUs w msg (master c)"
  using assms by (auto simp: report_def Let_def case_prod_beta)

text \<open>
  The lemmas on whole runs are for an environment in which every request and every write
  succeeds: there no worker process ends.
\<close>

lemma workerOnMessage_continues:
  assumes "\<forall>u. fetchOk env u" and "\<forall>p. writeStream env p = Written"
  shows "snd (snd (snd (workerOnMessage env job d))) = Continues"
  using getTile_continues [OF assms] by (simp add: workerOnMessage_def case_prod_beta)

lemma report_exited:
  assumes "\<forall>u. fetchOk env u" and "\<forall>p. writeStream env p = Written"
  shows "exited (report options numCPUs env k c) = exited c"
  by (simp add: report_def Let_def case_prod_beta workerOnMessage_continues [OF assms])

lemma report_inbox_length:
  assumes "inbox c \<noteq> []" and "\<forall>u. fetchOk env u" and "\<forall>p. writeStream env p = Written"
  shows "length (inbox (report options numCPUs env k c)) =
         length (inbox c) - 1 + (if fst (getNextJob options (iter (master c))) = None then 0 else 1)"
proof -
  let ?i = "k mod length (inbox c)"
  have "?i < length (inbox c)" using assms(1) by simp
  hence "length (take ?i (inbox c) @ drop (Suc ?i) (inbox c)) = length (inbox c) - 1" by simp
  thus ?thesis using assms(1)
    by (simp add: report_def Let_def case_prod_beta onMessage_sent
        workerOnMessage_continues [OF assms(2,3)] split: option.splits)
qed

lemma jobsFrom_step:
  "fst (jobsFrom options it) =
     (case fst (getNextJob options it) of
        None \<Rightarrow> []
      | Some j \<Rightarrow> j # fst (jobsFrom options (snd (getNextJob options it))))"
proof (cases "getNextJob options it")
  case (Pair r it')
  thus ?thesis by (cases r) (simp_all add: jobsFrom_None jobsFrom_Some)
qed

lemma jobsFrom_after_None:
  assumes "fst (getNextJob options it) = None"
  shows "fst (jobsFrom options (snd (getNextJob options it))) = []"
proof -
  obtain it' where g: "getNextJob options it = (None, it')"
    using assms by (cases "getNextJob options it") simp
  from getNextJob_exhausted [OF g] have "jobsFrom options it' = ([], it')" by (rule jobsFrom_None)
  thus ?thesis using g by simp
qed

lemma report_pendingWork:
  assumes "inbox c \<noteq> []" and "\<forall>u. fetchOk env u" and "\<forall>p. writeStream env p = Written"
  shows "pendingWork options (report options numCPUs env k c) = pendingWork options c - 1"
proof -
  obtain w msg where m: "master (report options numCPUs env k c) = onMessage options numCPUs w msg (master c)"
    using report_master [OF assms(1)] by blast
  have len: "0 < length (inbox c)" using assms(1) by simp
  show ?thesis
  proof (cases "fst (getNextJob options (iter (master c)))")
    case None
    hence "fst (jobsFrom options (iter (master c))) = []" by (subst jobsFrom_step) simp
    moreover have "fst (jobsFrom options (snd (getNextJob options (iter (master c))))) = []"
      using None by (rule jobsFrom_after_None)
    ultimately show ?thesis using None len
      by (simp add: pendingWork_def m onMessage_iter report_inbox_length [OF assms])
  next
    case (Some j)
    hence "fst (jobsFrom options (iter (master c))) =
           j # fst (jobsFrom options (snd (getNextJob options (iter (master c)))))"
      by (subst jobsFrom_step) simp
    thus ?thesis using Some len
      by (simp add: pendingWork_def m onMessage_iter report_inbox_length [OF assms])
  qed
qed

lemma downloadedCounts_append:
  "downloadedCounts (a @ b) = downloadedCounts a @ downloadedCounts b"
  by (induction a rule: downloadedCounts.induct) simp_all

lemma jobsFrom_snd_step:
  "snd (jobsFrom options (snd (getNextJob options it))) = snd (jobsFrom options it)"
proof (cases "getNextJob options it")
  case (Pair r it')
  show ?thesis
  proof (cases r)
    case None
    with Pair have g: "getNextJob options it = (None, it')" by simp
    from getNextJob_exhausted [OF g] have "jobsFrom options it' = ([], it')" by (rule jobsFrom_None)
    thus ?thesis using g by (simp add: jobsFrom_None [OF g])
  next
    case (Some j)
    with Pair have g: "getNextJob options it = (Some j, it')" by simp
    show ?thesis by (simp add: g jobsFrom_Some [OF g])
  qed
qed

lemma jobsFrom_snd_None:
  "fst (getNextJob options it) = None \<Longrightarrow> snd (getNextJob options it) = snd (jobsFrom options it)"
  by (cases "getNextJob options it") (simp add: jobsFrom_None)

lemma report_running:
  assumes "running options numCPUs c"
    and "\<forall>u. fetchOk env u" and "\<forall>p. writeStream env p = Written"
  shows "running options numCPUs (report options numCPUs env k c)"
proof (cases "inbox c = []")
  case True
  thus ?thesis using assms(1) by (simp add: report_idle)
next
  case False
  let ?R = "report options numCPUs env k c"
  let ?g = "getNextJob options (iter (master c))"
  obtain w msg where m: "master ?R = onMessage options numCPUs w msg (master c)"
    using report_master [OF False] by blast
  note len = report_inbox_length [OF False assms(2,3), of options numCPUs k]
  have pos: "0 < length (inbox c)" using False by simp
  have "exited c = []" using assms(1) by (simp add: running_def)
  hence X: "exited ?R = []" by (simp add: report_exited [OF assms(2,3)])
  from assms(1) have a: "stopped (master c) + length (inbox c) = numCPUs"
    and b: "callbacks (master c) = []" and k: "\<not> killed (master c)"
    and d: "map (job_coords \<circ> snd) (sent (master c))
         @ map job_coords (fst (jobsFrom options (iter (master c))))
       = replicate numCPUs (coords (seed options))
         @ map job_coords (fst (jobsFrom options (seed options)))"
    and f: "snd (jobsFrom options (iter (master c))) = snd (jobsFrom options (seed options))"
    and h: "downloadedCounts (console (master c)) = []"
    using False by (simp_all add: running_def)
  have F: "snd (jobsFrom options (iter (master ?R))) = snd (jobsFrom options (seed options))"
    using f by (simp add: m onMessage_iter jobsFrom_snd_step)
  show ?thesis
  proof (cases "fst ?g")
    case None
    have e: "fst (jobsFrom options (iter (master c))) = []"
      using None by (subst jobsFrom_step) simp
    have e': "fst (jobsFrom options (snd ?g)) = []"
      using None by (rule jobsFrom_after_None)
    have ln: "length (inbox ?R) = length (inbox c) - 1" using len None by simp
    hence "(length (inbox ?R) = 0) = (length (inbox c) = 1)" using pos by linarith
    hence last: "(inbox ?R = []) = (length (inbox c) = 1)" by simp
    have fin: "(Suc (stopped (master c)) < numCPUs) = (length (inbox c) \<noteq> Suc 0)"
      using a pos by linarith
    have "stopped (master ?R) = stopped (master c) + 1"
      using None by (simp add: m onMessage_stopped)
    hence "stopped (master ?R) + length (inbox ?R) = numCPUs"
      using a ln pos by linarith
    moreover have "callbacks (master ?R) = (if inbox ?R = [] then [None] else [])"
      using b None fin by (simp add: m onMessage_callbacks last)
    moreover have "killed (master ?R) = (inbox ?R = [])"
      using k None fin by (simp add: m onMessage_killed last)
    moreover have "map (job_coords \<circ> snd) (sent (master ?R))
         @ map job_coords (fst (jobsFrom options (iter (master ?R))))
       = replicate numCPUs (coords (seed options))
         @ map job_coords (fst (jobsFrom options (seed options)))"
      using d None by (simp add: m onMessage_sent onMessage_iter e e')
    moreover have "inbox ?R = [] \<longrightarrow> iter (master ?R) = snd (jobsFrom options (seed options))"
      using f None by (simp add: m onMessage_iter jobsFrom_snd_None)
    moreover have "downloadedCounts (console (master ?R))
         = (if inbox ?R = [] \<and> verbose options
            then [count (snd (jobsFrom options (seed options)))] else [])"
      using h f None fin
      by (simp add: m onMessage_console downloadedCounts_append last jobsFrom_snd_None)
    ultimately show ?thesis unfolding running_def using F X by blast
  next
    case (Some j)
    have e: "fst (jobsFrom options (iter (master c))) = j # fst (jobsFrom options (snd ?g))"
      using Some by (subst jobsFrom_step) simp
    have ln: "length (inbox ?R) = length (inbox c)" using len Some pos by simp
    hence ne: "inbox ?R \<noteq> []" using pos by auto
    have "stopped (master ?R) + length (inbox ?R) = numCPUs"
      using a ln Some by (simp add: m onMessage_stopped)
    moreover have "callbacks (master ?R) = (if inbox ?R = [] then [None] else [])"
      using b Some ne by (simp add: m onMessage_callbacks)
    moreover have "killed (master ?R) = (inbox ?R = [])"
      using k Some ne by (simp add: m onMessage_killed)
    moreover have "map (job_coords \<circ> snd) (sent (master ?R))
         @ map job_coords (fst (jobsFrom options (iter (master ?R))))
       = replicate numCPUs (coords (seed options))
         @ map job_coords (fst (jobsFrom options (seed options)))"
      using d Some by (simp add: m onMessage_sent onMessage_iter e)
    moreover have "downloadedCounts (console (master ?R)) = []"
      using h Some by (simp add: m onMessage_console downloadedCounts_append)
    ultimately show ?thesis unfolding running_def using F X ne by simp
  qed
qed

lemma runCluster_running:
  assumes "\<forall>u. fetchOk env u" and "\<forall>p. writeStream env p = Written"
  shows "running options numCPUs c \<Longrightarrow> running options numCPUs (runCluster options numCPUs env ks c)"
  by (induction ks arbitrary: c) (simp_all add: report_running [OF _ assms])

lemma runCluster_idle: "inbox c = [] \<Longrightarrow> runCluster options numCPUs env ks c = c"
  by (induction ks) (simp_all add: report_idle)

lemma runCluster_finishes:
  assumes "\<forall>u. fetchOk env u" and "\<forall>p. writeStream env p = Written"
  shows "pendingWork options c \<le> length ks \<Longrightarrow> inbox (runCluster options numCPUs env ks c) = []"
proof (induction ks arbitrary: c)
  case Nil
  thus ?case by (simp add: pendingWork_def)
next
  case (Cons k ks)
  show ?case
  proof (cases "inbox c = []")
    case True
    have idle: "\<And>ks. runCluster options numCPUs env ks c = c"
    proof -
      fix ks show "runCluster options numCPUs env ks c = c"
        by (induction ks) (simp_all add: report_idle [OF True])
    qed
    show ?thesis unfolding idle by (rule True)
  next
    case False
    have "pendingWork options (report options numCPUs env k c) \<le> length ks"
      using Cons.prems report_pendingWork [OF False assms, of options numCPUs k] by simp
    from Cons.IH [OF this] show ?thesis by simp
  qed
qed

lemma initial_jobs_coords:
  "map (job_coords \<circ> snd)
     (map (\<lambda>w. (w, (newJob options c)\<lparr> job_worker := Some w \<rparr>)) [1..<numCPUs + 1])
   = replicate numCPUs c"
proof -
  have "map (job_coords \<circ> snd)
     (map (\<lambda>w. (w, (newJob options c)\<lparr> job_worker := Some w \<rparr>)) [1..<numCPUs + 1])
    = map (\<lambda>w. c) [1..<numCPUs + 1]"
    by (simp add: newJob_def comp_def del: upt_Suc)
  also have "\<dots> = replicate (length [1..<numCPUs + 1]) c" by (rule map_replicate_const)
  finally show ?thesis by simp
qed

lemma startCluster_sent:
  assumes "fst (createDir env (output_dir options) disk0)"
  shows "sent (master (startCluster options numCPUs env disk0))
         = map (\<lambda>w. (w, (newJob options (coords (seed options)))\<lparr> job_worker := Some w \<rparr>))
               [1..<numCPUs + 1]"
    and "inbox (startCluster options numCPUs env disk0)
         = sent (master (startCluster options numCPUs env disk0))"
    and "iter (master (startCluster options numCPUs env disk0)) = seed options"
    and "stopped (master (startCluster options numCPUs env disk0)) = 0"
    and "callbacks (master (startCluster options numCPUs env disk0)) = []"
    and "killed (master (startCluster options numCPUs env disk0)) = False"
    and "console (master (startCluster options numCPUs env disk0)) = []"
    and "exited (startCluster options numCPUs env disk0) = []"
  using assms
  by (simp_all add: startCluster_def getTiles_def Let_def case_prod_beta del: upt_Suc)

lemma startCluster_running:
  assumes "fst (createDir env (output_dir options) disk0)" "0 < numCPUs"
  shows "running options numCPUs (startCluster options numCPUs env disk0)"
proof -
  let ?c = "startCluster options numCPUs env disk0"
  note st = startCluster_sent [OF assms(1), of numCPUs]
  have len: "length (inbox ?c) = numCPUs" unfolding st by simp
  hence ne: "inbox ?c \<noteq> []" using assms(2) by auto
  have "map (job_coords \<circ> snd) (sent (master ?c)) = replicate numCPUs (coords (seed options))"
    unfolding st(1) by (rule initial_jobs_coords)
  thus ?thesis
    unfolding running_def using len ne by (simp add: st(3-8))
qed

lemma startCluster_pendingWork:
  assumes "fst (createDir env (output_dir options) disk0)"
  shows "pendingWork options (startCluster options numCPUs env disk0)
         = length (fst (jobsFrom options (seed options))) + numCPUs"
  unfolding pendingWork_def startCluster_sent [OF assms] by simp

section \<open>The sequential version: lemmas\<close>

lemma tileGetCallback_getNextJob:
  assumes "cz (coords it) \<le> zoom_max (zoom options)"
  shows "tileGetCallback options None it =
           (case getNextJob options it of
              (Some j, it') \<Rightarrow> Next it'
            | (None, it') \<Rightarrow> Finished it')"
  using assms by (simp add: tileGetCallback_def getNextJob_def Let_def)

lemma tileGetCallback_error: "tileGetCallback options (Some er) it = Abort er"
  by (simp add: tileGetCallback_def)

lemma createDir_never_fails:
  "\<forall>p. mkdirSync env p \<noteq> MkdirFailed \<Longrightarrow> fst (createDir env q d)"
  by (cases "mkdirSync env q") (auto simp: createDir_def)

lemma getTile_seq_no_error:
  "\<forall>p. mkdirSync env p \<noteq> MkdirFailed \<Longrightarrow> fst (getTile_seq env u out c d) = None"
  by (simp add: getTile_seq_def Let_def case_prod_beta createDir_never_fails
      split: WriteResult.splits)

lemma getTile_seq_error:
  "fst (getTile_seq env u out c d) = Some er \<Longrightarrow>
   er = pathError (out @ ''/'' @ numToString (cz c))
   \<or> er = pathError (out @ ''/'' @ numToString (cz c) @ ''/'' @ numToString (cx c))"
  by (auto simp: getTile_seq_def Let_def case_prod_beta split: if_splits WriteResult.splits)

lemma getTile_seq_error_no_request:
  "fst (getTile_seq env u out c d) = Some er \<Longrightarrow>
   fst (snd (snd (getTile_seq env u out c d))) = []"
  by (auto simp: getTile_seq_def Let_def case_prod_beta split: if_splits WriteResult.splits)

lemma getTileLoop_abort:
  assumes "fst (getTile_seq env (url options) (output_dir options) (coords it) d) = Some er"
  shows "tiles (getTileLoop options env it d) = [coords it]"
    and "run_callbacks (getTileLoop options env it d) = [Some er]"
    and "run_requests (getTileLoop options env it d) = []"
    and "run_console (getTileLoop options env it d) = []"
proof -
  have "fst (getTile_seq env (url options) (output_dir options) (coords it) d) \<noteq> None"
    using assms by simp
  hence "snd (snd (snd (getTile_seq env (url options) (output_dir options) (coords it) d)))
         = Continues" by (rule getTile_seq_error_continues)
  thus "tiles (getTileLoop options env it d) = [coords it]"
    and "run_callbacks (getTileLoop options env it d) = [Some er]"
    and "run_requests (getTileLoop options env it d) = []"
    and "run_console (getTileLoop options env it d) = []"
    using assms getTile_seq_error_no_request [OF assms]
    by (subst getTileLoop.simps; simp add: case_prod_beta tileGetCallback_error)+
qed

lemma getTileLoop_tiles:
  assumes "\<forall>p. mkdirSync env p \<noteq> MkdirFailed" "cz (coords it) \<le> zoom_max (zoom options)"
    and "\<forall>u. fetchOk env u" and "\<forall>p. writeStream env p = Written"
  shows "tiles (getTileLoop options env it d) = coords it # map job_coords (fst (jobsFrom options it))
         \<and> run_callbacks (getTileLoop options env it d) = []
         \<and> run_console (getTileLoop options env it d)
             = (if verbose options then [Downloaded (count (snd (jobsFrom options it)))] else [])
         \<and> run_exit (getTileLoop options env it d) = Continues"
  using assms(2)
proof (induction it arbitrary: d rule: iter_induct [where options = options])
  case (step it)
  let ?t = "getTile_seq env (url options) (output_dir options) (coords it) d"
  have ok: "fst ?t = None" using assms(1) by (rule getTile_seq_no_error)
  have go: "snd (snd (snd ?t)) = Continues" using assms(3,4) by (rule getTile_seq_continues)
  obtain r it' where g: "getNextJob options it = (r, it')" by (cases "getNextJob options it")
  show ?case
  proof (cases r)
    case None
    hence cb: "tileGetCallback options None it = Finished it'"
      using g step.prems by (simp add: tileGetCallback_getNextJob)
    from g None have "jobsFrom options it = ([], it')" by (simp add: jobsFrom_None)
    thus ?thesis
      by (subst (1 2 3 4) getTileLoop.simps) (simp add: case_prod_beta ok go cb)
  next
    case (Some j)
    with g have g': "getNextJob options it = (Some j, it')" by simp
    have cb: "tileGetCallback options None it = Next it'"
      using g' step.prems by (simp add: tileGetCallback_getNextJob)
    have j: "job_coords j = coords it'" using getNextJob_job [OF g'] by (simp add: newJob_def)
    have "cz (coords it') \<le> zoom_max (zoom options)" using getNextJob_zoom [OF g'] by simp
    note IH = step.IH [OF g' this, of "fst (snd ?t)"]
    show ?thesis
      by (subst (1 2 3 4) getTileLoop.simps)
         (simp add: case_prod_beta ok go cb Let_def IH jobsFrom_Some [OF g'] j)
  qed
qed

lemma getTiles_seq_root_failure:
  assumes "\<not> fst (createDir env (output_dir options) d)"
  shows "tiles (getTiles_seq options env d) = []"
    and "run_callbacks (getTiles_seq options env d) = [Some (pathError (output_dir options))]"
    and "run_requests (getTiles_seq options env d) = []"
  using assms by (simp_all add: getTiles_seq_def Let_def case_prod_beta)

lemma getTiles_seq_tiles:
  assumes "\<forall>p. mkdirSync env p \<noteq> MkdirFailed"
    and "zoom_min (zoom options) \<le> zoom_max (zoom options)"
    and "\<forall>u. fetchOk env u" and "\<forall>p. writeStream env p = Written"
  shows "tiles (getTiles_seq options env d) = addresses options"
    and "run_callbacks (getTiles_seq options env d) = []"
    and "downloadedCounts (run_console (getTiles_seq options env d))
         = (if verbose options then [count (snd (jobsFrom options (seed options)))] else [])"
    and "run_exit (getTiles_seq options env d) = Continues"
proof -
  have z: "cz (coords (seed options)) \<le> zoom_max (zoom options)"
    using assms(2) by (simp add: seed_def Let_def)
  note L = getTileLoop_tiles [OF assms(1) z assms(3,4)]
  have made: "fst (createDir env (output_dir options) d)"
    using assms(1) by (rule createDir_never_fails)
  show "tiles (getTiles_seq options env d) = addresses options"
    using made L by (simp add: getTiles_seq_def Let_def case_prod_beta addresses_def)
  show "run_callbacks (getTiles_seq options env d) = []"
    using made L by (simp add: getTiles_seq_def Let_def case_prod_beta)
  show "downloadedCounts (run_console (getTiles_seq options env d))
         = (if verbose options then [count (snd (jobsFrom options (seed options)))] else [])"
    using made L by (simp add: getTiles_seq_def Let_def case_prod_beta)
  show "run_exit (getTiles_seq options env d) = Continues"
    using made L by (simp add: getTiles_seq_def Let_def case_prod_beta)
qed

section \<open>The sample inputs evaluated\<close>

lemma sample_bounds:
  "bboxToBounds (bbox sampleOptions) 0 = \<lparr> north = 0, west = 0, south = 0, east = 0 \<rparr>"
  "bboxToBounds (bbox sampleOptions) 1 = \<lparr> north = 0, west = 0, south = 1, east = 1 \<rparr>"
  by (simp_all add: sampleOptions_def bboxToBounds_def lngToTile_samples latToTile_equator
      latToTile_45_zoom0 latToTile_45_zoom1)

lemma crossing_bounds:
  "bboxToBounds (bbox crossingOptions) 2 = \<lparr> north = 2, west = 3, south = 2, east = 1 \<rparr>"
  by (simp add: crossingOptions_def bboxToBounds_def lngToTile_samples latToTile_equator)

lemma sample_zoom: "zoom_min (zoom sampleOptions) = 0" "zoom_max (zoom sampleOptions) = 1"
  "verbose sampleOptions"
  by (simp_all add: sampleOptions_def)

lemma crossing_zoom: "zoom_min (zoom crossingOptions) = 2" "zoom_max (zoom crossingOptions) = 2"
  "verbose crossingOptions"
  by (simp_all add: crossingOptions_def)

lemma jobsFrom_snd_unfold:
  "snd (jobsFrom options it) =
     (case fst (getNextJob options it) of
        None \<Rightarrow> snd (getNextJob options it)
      | Some j \<Rightarrow> snd (jobsFrom options (snd (getNextJob options it))))"
proof (cases "getNextJob options it")
  case (Pair r it')
  thus ?thesis by (cases r) (simp_all add: jobsFrom_None jobsFrom_Some)
qed

lemma sample_addresses:
  "addresses sampleOptions =
     [\<lparr>cz = 0, cx = 0, cy = 0\<rparr>, \<lparr>cz = 1, cx = 0, cy = 0\<rparr>, \<lparr>cz = 1, cx = 0, cy = 1\<rparr>,
      \<lparr>cz = 1, cx = 1, cy = 0\<rparr>, \<lparr>cz = 1, cx = 1, cy = 1\<rparr>]"
  by (simp add: addresses_def seed_def Let_def jobsFrom_step getNextJob_def sample_bounds
      sample_zoom newJob_def)

lemma sample_count: "count (snd (jobsFrom sampleOptions (seed sampleOptions))) = 5"
  by (simp add: seed_def Let_def jobsFrom_snd_unfold getNextJob_def sample_bounds sample_zoom)

lemma crossing_addresses: "addresses crossingOptions = [\<lparr>cz = 2, cx = 3, cy = 2\<rparr>]"
  by (simp add: addresses_def seed_def Let_def jobsFrom_step getNextJob_def crossing_bounds
      crossing_zoom newJob_def)




section \<open>A complete run of the cluster\<close>

lemma jobsFrom_zoom_range:
  "j \<in> set (fst (jobsFrom options it)) \<Longrightarrow>
   cz (coords it) \<le> cz (job_coords j) \<and> cz (job_coords j) \<le> zoom_max (zoom options)"
proof (induction it rule: iter_induct [where options = options])
  case (step it)
  obtain r it' where g: "getNextJob options it = (r, it')" by (cases "getNextJob options it")
  show ?case
  proof (cases r)
    case None
    with g step.prems show ?thesis by (simp add: jobsFrom_None)
  next
    case (Some j')
    with g have g': "getNextJob options it = (Some j', it')" by simp
    note z = getNextJob_zoom [OF g']
    have j': "job_coords j' = coords it'" using getNextJob_job [OF g'] by (simp add: newJob_def)
    from step.prems have "j = j' \<or> j \<in> set (fst (jobsFrom options it'))"
      by (simp add: jobsFrom_Some [OF g'])
    thus ?thesis
    proof
      assume "j = j'" thus ?thesis using z j' by simp
    next
      assume "j \<in> set (fst (jobsFrom options it'))"
      from step.IH [OF g' this] z show ?thesis by simp
    qed
  qed
qed

lemma jobsFrom_done: "fst (jobsFrom options (snd (jobsFrom options it))) = []"
  using jobsFrom_exhausted [of options it] by (subst jobsFrom_step) simp

lemma run_complete:
  assumes "fst (createDir env (output_dir options) disk0)" "0 < numCPUs"
    and "length (fst (jobsFrom options (seed options))) + numCPUs \<le> length ks"
    and "\<forall>u. fetchOk env u" and "\<forall>p. writeStream env p = Written"
  shows "inbox (runCluster options numCPUs env ks (startCluster options numCPUs env disk0)) = []"
    and "callbacks (master (runCluster options numCPUs env ks (startCluster options numCPUs env disk0))) = [None]"
    and "killed (master (runCluster options numCPUs env ks (startCluster options numCPUs env disk0)))"
    and "stopped (master (runCluster options numCPUs env ks (startCluster options numCPUs env disk0))) = numCPUs"
    and "map (job_coords \<circ> snd) (sent (master (runCluster options numCPUs env ks (startCluster options numCPUs env disk0))))
         = replicate numCPUs (coords (seed options)) @ map job_coords (fst (jobsFrom options (seed options)))"
    and "iter (master (runCluster options numCPUs env ks (startCluster options numCPUs env disk0)))
         = snd (jobsFrom options (seed options))"
    and "downloadedCounts (console (master (runCluster options numCPUs env ks (startCluster options numCPUs env disk0))))
         = (if verbose options then [count (snd (jobsFrom options (seed options)))] else [])"
proof -
  let ?c = "runCluster options numCPUs env ks (startCluster options numCPUs env disk0)"
  have "pendingWork options (startCluster options numCPUs env disk0) \<le> length ks"
    using assms(3) by (simp add: startCluster_pendingWork [OF assms(1)])
  thus empty: "inbox ?c = []" by (rule runCluster_finishes [OF assms(4,5)])
  have "running options numCPUs (startCluster options numCPUs env disk0)"
    using assms(1,2) by (rule startCluster_running)
  hence r: "running options numCPUs ?c" by (rule runCluster_running [OF assms(4,5)])
  show "callbacks (master ?c) = [None]" using r empty by (simp add: running_def)
  show "killed (master ?c)" using r empty by (simp add: running_def)
  show "stopped (master ?c) = numCPUs" using r empty by (simp add: running_def)
  show it: "iter (master ?c) = snd (jobsFrom options (seed options))"
    using r empty by (simp add: running_def)
  show "map (job_coords \<circ> snd) (sent (master ?c))
         = replicate numCPUs (coords (seed options)) @ map job_coords (fst (jobsFrom options (seed options)))"
    using r by (simp add: running_def it jobsFrom_done)
  show "downloadedCounts (console (master ?c))
         = (if verbose options then [count (snd (jobsFrom options (seed options)))] else [])"
    using r empty by (simp add: running_def)
qed

lemma report_single:
  assumes "inbox c = [(w, job)]"
  shows "master (report options numCPUs env k c)
         = onMessage options numCPUs w (fst (workerOnMessage env job (disk c))) (master c)"
    and "disk (report options numCPUs env k c) = fst (snd (workerOnMessage env job (disk c)))"
    and "requests (report options numCPUs env k c)
         = requests c @ fst (snd (snd (workerOnMessage env job (disk c))))"
    and "exited (report options numCPUs env k c)
         = exited c @ (if snd (snd (snd (workerOnMessage env job (disk c)))) = Ends
                       then [w] else [])"
    and "inbox (report options numCPUs env k c)
         = (if snd (snd (snd (workerOnMessage env job (disk c)))) = Ends then []
            else drop (length (sent (master c)))
                   (sent (onMessage options numCPUs w (fst (workerOnMessage env job (disk c)))
                            (master c))))"
  using assms by (simp_all add: report_def Let_def case_prod_beta)

lemma getTileLoop_first:
  "\<exists>rest. tiles (getTileLoop options env it d) = coords it # rest"
  by (subst getTileLoop.simps) (simp add: case_prod_beta Let_def split: Step.splits)

lemma sample_reliable:
  "\<forall>u. fetchOk sampleEnv u" "\<forall>p. writeStream sampleEnv p = Written"
  "\<forall>u. fetchOk readOnlyEnv u" "\<forall>p. writeStream readOnlyEnv p = Written"
  "\<forall>p. mkdirSync sampleEnv p \<noteq> MkdirFailed"
  by (simp_all add: sampleEnv_def readOnlyEnv_def)

lemma onMessage_ignores_message:
  "iter (onMessage options numCPUs w msg m) = iter (onMessage options numCPUs w msg' m)"
  "sent (onMessage options numCPUs w msg m) = sent (onMessage options numCPUs w msg' m)"
  "stopped (onMessage options numCPUs w msg m) = stopped (onMessage options numCPUs w msg' m)"
  "callbacks (onMessage options numCPUs w msg m) = callbacks (onMessage options numCPUs w msg' m)"
  by (simp_all add: onMessage_iter onMessage_sent onMessage_stopped onMessage_callbacks)

lemma sample_jobs_length: "length (fst (jobsFrom sampleOptions (seed sampleOptions))) = 4"
proof -
  have "length (addresses sampleOptions) = 5" by (simp add: sample_addresses)
  thus ?thesis by (simp add: addresses_def)
qed

lemma sample_seed_coords: "coords (seed sampleOptions) = \<lparr>cz = 0, cx = 0, cy = 0\<rparr>"
  by (simp add: seed_def Let_def sample_bounds sample_zoom)

lemma sample_jobs_coords:
  "map job_coords (fst (jobsFrom sampleOptions (seed sampleOptions))) =
     [\<lparr>cz = 1, cx = 0, cy = 0\<rparr>, \<lparr>cz = 1, cx = 0, cy = 1\<rparr>,
      \<lparr>cz = 1, cx = 1, cy = 0\<rparr>, \<lparr>cz = 1, cx = 1, cy = 1\<rparr>]"
  using sample_addresses by (simp add: addresses_def)

lemma sample_root:
  "fst (createDir sampleEnv (output_dir sampleOptions) [])"
  "fst (createDir offlineEnv (output_dir sampleOptions) [])"
  "fst (createDir readOnlyEnv (output_dir sampleOptions) [])"
  by (simp_all add: createDir_def existsSync_def sampleEnv_def offlineEnv_def readOnlyEnv_def
      sampleOptions_def)

lemma sample_ordered:
  "\<forall>zm. zoom_min (zoom sampleOptions) \<le> zm \<and> zm \<le> zoom_max (zoom sampleOptions)
        \<longrightarrow> ordered (bboxToBounds (bbox sampleOptions) zm)"
proof (intro allI impI)
  fix zm :: int
  assume "zoom_min (zoom sampleOptions) \<le> zm \<and> zm \<le> zoom_max (zoom sampleOptions)"
  hence "zm = 0 \<or> zm = 1" by (simp add: sample_zoom) linarith
  thus "ordered (bboxToBounds (bbox sampleOptions) zm)"
    by (auto simp: sample_bounds ordered_def)
qed

section \<open>The two versions of bboxToBounds\<close>

text \<open>
  For every bounding box array and zoom level the two versions return the same \<open>west\<close>
  and \<open>east\<close>, and each one's \<open>north\<close> is the other one's \<open>south\<close>.
\<close>

lemma bboxToBounds_index_swap:
  "bboxToBounds_index bb zm =
     \<lparr> north = south (bboxToBounds bb zm),
       west = west (bboxToBounds bb zm),
       south = north (bboxToBounds bb zm),
       east = east (bboxToBounds bb zm) \<rparr>"
  by (simp add: bboxToBounds_index_def bboxToBounds_def)

text \<open>
  C9: for every bounding box array \<^verbatim>\<open>[south, west, north, east]\<close> and zoom level,
  \<^verbatim>\<open>bboxToBounds\<close> of \<^verbatim>\<open>src/index.js\<close> and \<^verbatim>\<open>bboxToBounds\<close> of \<^verbatim>\<open>part_000\<close> return equal
  records. They do not: \<^verbatim>\<open>src/index.js\<close> computes \<^verbatim>\<open>bounds.north\<close> from \<^verbatim>\<open>bbox[0]\<close>, the
  south latitude, and \<^verbatim>\<open>bounds.south\<close> from \<^verbatim>\<open>bbox[2]\<close>, the north latitude. For the box
  \<^verbatim>\<open>[0, 0, 45, 90]\<close> (south 0, north 45) at zoom 1 it returns north 1 and south 0, a
  north row below the south row; \<^verbatim>\<open>part_000\<close> (and \<^verbatim>\<open>part_001\<close>, the same text) returns
  north 0 and south 1.
\<close>

theorem C9_versions_differ:
  "bboxToBounds_index [0, 0, 45, 90] 1 \<noteq> bboxToBounds [0, 0, 45, 90] 1
   \<and> north (bboxToBounds_index [0, 0, 45, 90] 1) = 1
   \<and> south (bboxToBounds_index [0, 0, 45, 90] 1) = 0
   \<and> \<not> ordered (bboxToBounds_index [0, 0, 45, 90] 1)
   \<and> north (bboxToBounds [0, 0, 45, 90] 1) = 0
   \<and> south (bboxToBounds [0, 0, 45, 90] 1) = 1
   \<and> ordered (bboxToBounds [0, 0, 45, 90] 1)"
  by (simp add: bboxToBounds_index_def bboxToBounds_def ordered_def latToTile_equator
      latToTile_45_zoom1 lngToTile_samples)

section \<open>The claims about the iterator\<close>

text \<open>
  In \<^verbatim>\<open>part_000\<close> and \<^verbatim>\<open>part_001\<close> the cursor is seeded with \<open>z = zoom.min\<close>,
  \<open>x = bounds.west\<close>, \<open>y = bounds.north\<close>, with the bounds of \<^verbatim>\<open>bboxToBounds\<close> at
  \<open>zoom.min\<close>. That address is the head of the iterator's addresses; in \<^verbatim>\<open>part_001\<close> it is
  the address of the job sent to each worker when the workers are forked; in \<^verbatim>\<open>part_000\<close>
  it is the address of the first call of \<^verbatim>\<open>getTile\<close>. (Both need the output directory:
  without it no tile is requested.)
\<close>

lemma first_address:
  assumes "fst (createDir env (output_dir options) disk0)" and "0 < numCPUs"
  shows "hd (addresses options)
           = \<lparr> cz = zoom_min (zoom options),
               cx = west (bboxToBounds (bbox options) (zoom_min (zoom options))),
               cy = north (bboxToBounds (bbox options) (zoom_min (zoom options))) \<rparr>
         \<and> map (job_coords \<circ> snd) (sent (fst (getTiles options numCPUs env disk0)))
           = replicate numCPUs
               \<lparr> cz = zoom_min (zoom options),
                 cx = west (bboxToBounds (bbox options) (zoom_min (zoom options))),
                 cy = north (bboxToBounds (bbox options) (zoom_min (zoom options))) \<rparr>
         \<and> sent (fst (getTiles options numCPUs env disk0)) \<noteq> []
         \<and> (\<exists>rest. tiles (getTiles_seq options env disk0)
               = \<lparr> cz = zoom_min (zoom options),
                   cx = west (bboxToBounds (bbox options) (zoom_min (zoom options))),
                   cy = north (bboxToBounds (bbox options) (zoom_min (zoom options))) \<rparr> # rest)"
proof -
  let ?first = "\<lparr> cz = zoom_min (zoom options),
               cx = west (bboxToBounds (bbox options) (zoom_min (zoom options))),
               cy = north (bboxToBounds (bbox options) (zoom_min (zoom options))) \<rparr>"
  have seed: "coords (seed options) = ?first" by (simp add: seed_def Let_def)
  have a: "hd (addresses options) = ?first" by (simp add: addresses_def seed)
  have sent: "sent (fst (getTiles options numCPUs env disk0))
         = map (\<lambda>w. (w, (newJob options (coords (seed options)))\<lparr> job_worker := Some w \<rparr>))
               [1..<numCPUs + 1]"
    using assms(1) by (simp add: getTiles_def Let_def case_prod_beta del: upt_Suc)
  have b: "map (job_coords \<circ> snd) (sent (fst (getTiles options numCPUs env disk0)))
           = replicate numCPUs ?first"
    unfolding sent initial_jobs_coords seed by (rule refl)
  have "length (sent (fst (getTiles options numCPUs env disk0))) = numCPUs"
    unfolding sent by simp
  hence c: "sent (fst (getTiles options numCPUs env disk0)) \<noteq> []" using assms(2) by auto
  obtain rest where "tiles (getTileLoop options env (seed options)
                       (snd (createDir env (output_dir options) disk0))) = coords (seed options) # rest"
    using getTileLoop_first by blast
  hence "tiles (getTiles_seq options env disk0) = ?first # rest"
    using assms(1) by (simp add: getTiles_seq_def Let_def case_prod_beta seed)
  hence d: "\<exists>rest. tiles (getTiles_seq options env disk0) = ?first # rest" by blast
  from a b c d show ?thesis by blast
qed

text \<open>
  The cursor of \<^verbatim>\<open>src/index.js\<close>: it is seeded with the east column, and with the field
  its own \<^verbatim>\<open>bboxToBounds\<close> calls south (the row of \<^verbatim>\<open>bbox[2]\<close>, which \<^verbatim>\<open>part_000\<close> calls
  north).
\<close>

lemma getTiles_index_cursor:
  "getTiles_index options
     = \<lparr> cz = zoom_min (zoom options),
         cx = east (bboxToBounds (bbox options) (zoom_min (zoom options))),
         cy = north (bboxToBounds (bbox options) (zoom_min (zoom options))) \<rparr>"
  by (simp add: getTiles_index_def Let_def bboxToBounds_index_def bboxToBounds_def)

lemma levelOne_bounds:
  "bboxToBounds (bbox levelOneOptions) 1 = \<lparr> north = 0, west = 0, south = 1, east = 1 \<rparr>"
  "bboxToBounds_index (bbox levelOneOptions) 1 = \<lparr> north = 1, west = 0, south = 0, east = 1 \<rparr>"
  "zoom_min (zoom levelOneOptions) = 1" "zoom_max (zoom levelOneOptions) = 1"
proof -
  have b: "bbox levelOneOptions = bbox sampleOptions"
    by (simp add: levelOneOptions_def sampleOptions_def)
  show "bboxToBounds (bbox levelOneOptions) 1 = \<lparr> north = 0, west = 0, south = 1, east = 1 \<rparr>"
    unfolding b by (rule sample_bounds(2))
  thus "bboxToBounds_index (bbox levelOneOptions) 1
        = \<lparr> north = 1, west = 0, south = 0, east = 1 \<rparr>"
    by (simp add: bboxToBounds_index_swap)
  show "zoom_min (zoom levelOneOptions) = 1" "zoom_max (zoom levelOneOptions) = 1"
    by (simp_all add: levelOneOptions_def)
qed

text \<open>
  C7: the first address the seeded iterator yields is \<open>z = zoom.min\<close>, \<open>x = bounds.west\<close>,
  \<open>y = bounds.north\<close>, with the bounds of \<^verbatim>\<open>bboxToBounds\<close> at \<open>zoom.min\<close>. \<^verbatim>\<open>part_000\<close> and
  \<^verbatim>\<open>part_001\<close> do this (\<open>first_address\<close>). \<^verbatim>\<open>getTiles\<close> of \<^verbatim>\<open>src/index.js\<close> does not: it
  sets \<^verbatim>\<open>coords.x = bounds.east\<close> and \<^verbatim>\<open>coords.y = bounds.south\<close>, and then returns without
  requesting a tile. For the sample box at zoom level 1 its cursor is \<open>(1, 1, 0)\<close>, where
  the address of the claim is \<open>(1, 0, 1)\<close> by the bounds of \<^verbatim>\<open>src/index.js\<close> itself and
  \<open>(1, 0, 0)\<close> by those of \<^verbatim>\<open>part_000\<close>, which is where \<^verbatim>\<open>part_000\<close> and \<^verbatim>\<open>part_001\<close> start.
\<close>

theorem C7_index_cursor_is_east_south:
  "getTiles_index levelOneOptions = \<lparr> cz = 1, cx = 1, cy = 0 \<rparr>
   \<and> \<lparr> cz = zoom_min (zoom levelOneOptions),
       cx = west (bboxToBounds_index (bbox levelOneOptions) (zoom_min (zoom levelOneOptions))),
       cy = north (bboxToBounds_index (bbox levelOneOptions) (zoom_min (zoom levelOneOptions))) \<rparr>
     = \<lparr> cz = 1, cx = 0, cy = 1 \<rparr>
   \<and> hd (addresses levelOneOptions) = \<lparr> cz = 1, cx = 0, cy = 0 \<rparr>
   \<and> map (job_coords \<circ> snd) (sent (fst (getTiles levelOneOptions 1 sampleEnv [])))
     = [\<lparr> cz = 1, cx = 0, cy = 0 \<rparr>]
   \<and> (\<exists>rest. tiles (getTiles_seq levelOneOptions sampleEnv [])
                = \<lparr> cz = 1, cx = 0, cy = 0 \<rparr> # rest)"
proof -
  have a: "getTiles_index levelOneOptions = \<lparr> cz = 1, cx = 1, cy = 0 \<rparr>"
    by (simp add: getTiles_index_def Let_def levelOne_bounds)
  have b: "\<lparr> cz = zoom_min (zoom levelOneOptions),
       cx = west (bboxToBounds_index (bbox levelOneOptions) (zoom_min (zoom levelOneOptions))),
       cy = north (bboxToBounds_index (bbox levelOneOptions) (zoom_min (zoom levelOneOptions))) \<rparr>
     = \<lparr> cz = 1, cx = 0, cy = 1 \<rparr>"
    by (simp add: levelOne_bounds)
  have root: "fst (createDir sampleEnv (output_dir levelOneOptions) [])"
    by (simp add: createDir_def existsSync_def sampleEnv_def)
  have pos: "0 < (1::nat)" by simp
  note F = first_address [OF root pos]
  from F have c: "hd (addresses levelOneOptions) = \<lparr> cz = 1, cx = 0, cy = 0 \<rparr>"
    by (simp add: levelOne_bounds)
  from F have d: "map (job_coords \<circ> snd) (sent (fst (getTiles levelOneOptions 1 sampleEnv [])))
     = [\<lparr> cz = 1, cx = 0, cy = 0 \<rparr>]"
    by (simp add: levelOne_bounds)
  from F have e: "\<exists>rest. tiles (getTiles_seq levelOneOptions sampleEnv [])
                = \<lparr> cz = 1, cx = 0, cy = 0 \<rparr> # rest"
    by (simp add: levelOne_bounds)
  from a b c d e show ?thesis by blast
qed

lemma nestedOrder_bounds:
  assumes "c \<in> set (nestedOrder options)"
  shows "zoom_min (zoom options) \<le> cz c \<and> cz c \<le> zoom_max (zoom options)
         \<and> west (bboxToBounds (bbox options) (cz c)) \<le> cx c
         \<and> cx c \<le> east (bboxToBounds (bbox options) (cz c))
         \<and> north (bboxToBounds (bbox options) (cz c)) \<le> cy c
         \<and> cy c \<le> south (bboxToBounds (bbox options) (cz c))"
  using assms by (auto simp: nestedOrder_def level_def column_def Let_def)

lemma descending_addresses:
  "addresses descendingOptions = [\<lparr>cz = 1, cx = 0, cy = 0\<rparr>]"
  "zoom_min (zoom descendingOptions) = 1" "zoom_max (zoom descendingOptions) = 0"
proof -
  have b: "bbox descendingOptions = bbox sampleOptions"
    by (simp add: descendingOptions_def sampleOptions_def)
  show z: "zoom_min (zoom descendingOptions) = 1" "zoom_max (zoom descendingOptions) = 0"
    by (simp_all add: descendingOptions_def)
  show "addresses descendingOptions = [\<lparr>cz = 1, cx = 0, cy = 0\<rparr>]"
    by (simp add: addresses_def seed_def Let_def jobsFrom_step getNextJob_def z b sample_bounds)
qed

lemma sample_inRange: "inRange sampleOptions" "inRange crossingOptions"
  by (simp_all add: inRange_def sampleOptions_def crossingOptions_def)

text \<open>
  C3 (as stated): the iterator emits addresses in strict nested ascending order, \<open>z\<close>
  over \<open>[min, max]\<close>, within one \<open>z\<close> the column over \<open>[west, east]\<close>, within one column the
  row over \<open>[north, south]\<close>. This fails where the claim about the count fails: the
  address the cursor is reset to is emitted before it is compared with the bounds. For
  the box \<^verbatim>\<open>[0, 90, 0, -90]\<close> at zoom level 2 the columns are \<open>[west, east] = [3, 1]\<close>, the
  nested enumeration is empty, and the iterator emits \<open>(2, 3, 2)\<close>, whose column is not in
  \<open>[3, 1]\<close>. And for a zoom range with \<open>min = 1 > max = 0\<close> it emits \<open>(1, 0, 0)\<close>, whose zoom
  level is above \<open>max\<close>.
\<close>

theorem C3_crossing_box_column:
  "inRange crossingOptions
   \<and> zoom_min (zoom crossingOptions) \<le> zoom_max (zoom crossingOptions)
   \<and> addresses crossingOptions = [\<lparr>cz = 2, cx = 3, cy = 2\<rparr>]
   \<and> west (bboxToBounds (bbox crossingOptions) 2) = 3
   \<and> east (bboxToBounds (bbox crossingOptions) 2) = 1
   \<and> nestedOrder crossingOptions = []
   \<and> addresses crossingOptions \<noteq> nestedOrder crossingOptions
   \<and> inRange descendingOptions
   \<and> addresses descendingOptions = [\<lparr>cz = 1, cx = 0, cy = 0\<rparr>]
   \<and> zoom_max (zoom descendingOptions) = 0"
proof -
  have "nestedOrder crossingOptions = []"
    by (simp add: nestedOrder_def level_def Let_def crossing_zoom crossing_bounds)
  moreover have "inRange descendingOptions"
    by (simp add: inRange_def descendingOptions_def)
  ultimately show ?thesis
    by (simp add: sample_inRange crossing_zoom crossing_addresses crossing_bounds
        descending_addresses)
qed

text \<open>
  C3 (amended): for a zoom range with \<open>min \<le> max\<close> and a box whose bounds are ordered at
  every zoom level of the range (\<open>north \<le> south\<close> and \<open>west \<le> east\<close>), on inputs in range
  (\<open>inRange\<close>): the addresses the iterator emits are the nested enumeration of the
  specification, \<open>z\<close> over \<open>[min, max]\<close>, the column over \<open>[west, east]\<close>, the row over
  \<open>[north, south]\<close> varying fastest, so every address lies inside the bounds of its zoom
  level; each address is followed by its successor in the sense of the specification
  (row first; past \<open>south\<close> the next column from \<open>north\<close>; past \<open>east\<close> the next zoom level
  with its bounds recomputed, from \<open>west\<close> and \<open>north\<close>), and the last address has no
  successor; the addresses ascend strictly by zoom level, then column, then row; once
  \<^verbatim>\<open>getNextJob\<close> has returned \<^verbatim>\<open>undefined\<close> it does so on every later call, leaving the
  state as it is. The calls of \<^verbatim>\<open>getTile\<close> in \<^verbatim>\<open>part_000\<close> are the same addresses in the
  same order, where no directory fails to be made and every request and write succeeds.
\<close>

theorem C3_nested_ascending_order:
  assumes "zoom_min (zoom options) \<le> zoom_max (zoom options)"
    and "\<forall>zm. zoom_min (zoom options) \<le> zm \<and> zm \<le> zoom_max (zoom options)
           \<longrightarrow> ordered (bboxToBounds (bbox options) zm)"
    and "inRange options"
  shows "addresses options = nestedOrder options
         \<and> (\<forall>c \<in> set (addresses options).
               zoom_min (zoom options) \<le> cz c \<and> cz c \<le> zoom_max (zoom options)
               \<and> west (bboxToBounds (bbox options) (cz c)) \<le> cx c
               \<and> cx c \<le> east (bboxToBounds (bbox options) (cz c))
               \<and> north (bboxToBounds (bbox options) (cz c)) \<le> cy c
               \<and> cy c \<le> south (bboxToBounds (bbox options) (cz c)))
         \<and> successively (\<lambda>a b. successor options a = Some b) (addresses options)
         \<and> successor options (last (addresses options)) = None
         \<and> sorted_wrt coords_less (addresses options)
         \<and> getNextJob options (snd (jobsFrom options (seed options)))
             = (None, snd (jobsFrom options (seed options)))
         \<and> ((\<forall>p. mkdirSync env p \<noteq> MkdirFailed) \<and> (\<forall>u. fetchOk env u)
              \<and> (\<forall>p. writeStream env p = Written)
              \<longrightarrow> tiles (getTiles_seq options env disk0) = addresses options)"
proof -
  have z: "cz (coords (seed options)) \<le> zoom_max (zoom options)"
    using assms(1) by (simp add: seed_def Let_def)
  note chain = jobsFrom_chain [OF seed_aligned z]
  have n: "addresses options = nestedOrder options" using assms(1,2) by (rule addresses_nested)
  have range: "\<forall>c \<in> set (addresses options).
               zoom_min (zoom options) \<le> cz c \<and> cz c \<le> zoom_max (zoom options)
               \<and> west (bboxToBounds (bbox options) (cz c)) \<le> cx c
               \<and> cx c \<le> east (bboxToBounds (bbox options) (cz c))
               \<and> north (bboxToBounds (bbox options) (cz c)) \<le> cy c
               \<and> cy c \<le> south (bboxToBounds (bbox options) (cz c))"
    unfolding n using nestedOrder_bounds by blast
  have s: "successively (\<lambda>a b. successor options a = Some b) (addresses options)"
    and l: "successor options (last (addresses options)) = None"
    using chain by (simp_all add: addresses_def)
  have o: "sorted_wrt coords_less (addresses options)"
    unfolding addresses_def by (rule jobsFrom_sorted)
  have x: "getNextJob options (snd (jobsFrom options (seed options)))
             = (None, snd (jobsFrom options (seed options)))"
    by (rule jobsFrom_exhausted)
  have q: "(\<forall>p. mkdirSync env p \<noteq> MkdirFailed) \<and> (\<forall>u. fetchOk env u)
              \<and> (\<forall>p. writeStream env p = Written)
              \<longrightarrow> tiles (getTiles_seq options env disk0) = addresses options"
    using getTiles_seq_tiles(1) [OF _ assms(1), of env disk0] by blast
  from n range s l o x q show ?thesis by blast
qed

theorem C3_nested_ascending_order_witness:
  "addresses sampleOptions =
     [\<lparr>cz = 0, cx = 0, cy = 0\<rparr>, \<lparr>cz = 1, cx = 0, cy = 0\<rparr>, \<lparr>cz = 1, cx = 0, cy = 1\<rparr>,
      \<lparr>cz = 1, cx = 1, cy = 0\<rparr>, \<lparr>cz = 1, cx = 1, cy = 1\<rparr>]
   \<and> sorted_wrt coords_less (addresses sampleOptions)
   \<and> successor sampleOptions (last (addresses sampleOptions)) = None
   \<and> addresses sampleOptions = nestedOrder sampleOptions
   \<and> tiles (getTiles_seq sampleOptions sampleEnv []) = addresses sampleOptions"
proof -
  have zoom: "zoom_min (zoom sampleOptions) \<le> zoom_max (zoom sampleOptions)"
    by (simp add: sample_zoom)
  note T = C3_nested_ascending_order [OF zoom sample_ordered sample_inRange(1), of sampleEnv "[]"]
  from T have s: "sorted_wrt coords_less (addresses sampleOptions)" by blast
  from T have l: "successor sampleOptions (last (addresses sampleOptions)) = None" by blast
  from T have n: "addresses sampleOptions = nestedOrder sampleOptions" by blast
  from T sample_reliable(1,2,5)
  have t: "tiles (getTiles_seq sampleOptions sampleEnv []) = addresses sampleOptions"
    by blast
  from sample_addresses s l n t show ?thesis by blast
qed



section \<open>The claims about the dispatcher and the workers\<close>

lemma sorted_wrt_irrefl_distinct:
  "sorted_wrt P xs \<Longrightarrow> (\<And>a. \<not> P a a) \<Longrightarrow> distinct xs"
  by (induction xs) auto

lemma addresses_distinct: "distinct (addresses options)"
proof -
  have "sorted_wrt coords_less (addresses options)"
    unfolding addresses_def by (rule jobsFrom_sorted)
  thus ?thesis by (rule sorted_wrt_irrefl_distinct) (simp add: coords_less_def)
qed

lemma initial_jobs_repeat:
  assumes "fst (createDir env (output_dir options) disk0)" and "2 \<le> numCPUs"
  shows "\<not> distinct (map (job_coords \<circ> snd) (sent (fst (getTiles options numCPUs env disk0))))"
proof -
  have "sent (fst (getTiles options numCPUs env disk0))
         = map (\<lambda>w. (w, (newJob options (coords (seed options)))\<lparr> job_worker := Some w \<rparr>))
               [1..<numCPUs + 1]"
    using assms(1) by (simp add: getTiles_def Let_def case_prod_beta del: upt_Suc)
  hence "map (job_coords \<circ> snd) (sent (fst (getTiles options numCPUs env disk0)))
         = replicate numCPUs (coords (seed options))"
    by (simp only: initial_jobs_coords)
  moreover have "numCPUs = Suc (Suc (numCPUs - 2))" using assms(2) by simp
  ultimately have "map (job_coords \<circ> snd) (sent (fst (getTiles options numCPUs env disk0)))
         = coords (seed options) # coords (seed options)
           # replicate (numCPUs - 2) (coords (seed options))"
    by (metis replicate_Suc)
  thus ?thesis by simp
qed

text \<open>
  C1: no tile address is contained in two jobs of a run. The jobs the iterator produces
  never repeat an address (\<open>addresses_distinct\<close>), but the loop that forks the workers
  sends every worker a job built from the same \<^verbatim>\<open>coords\<close>, without a call of
  \<^verbatim>\<open>getNextJob\<close> in between. With two workers and the sample box the two first jobs both
  have the address \<open>(0, 0, 0)\<close>, and the jobs of the complete run are that address twice,
  followed by the four addresses of zoom level 1.
\<close>

theorem C1_seed_job_sent_to_every_worker:
  "map (job_coords \<circ> snd) (sent (fst (getTiles sampleOptions 2 sampleEnv [])))
     = [\<lparr>cz = 0, cx = 0, cy = 0\<rparr>, \<lparr>cz = 0, cx = 0, cy = 0\<rparr>]
   \<and> map (job_coords \<circ> snd)
         (sent (master (runCluster sampleOptions 2 sampleEnv [0, 1, 0, 1, 0, 1]
                          (startCluster sampleOptions 2 sampleEnv []))))
     = [\<lparr>cz = 0, cx = 0, cy = 0\<rparr>, \<lparr>cz = 0, cx = 0, cy = 0\<rparr>, \<lparr>cz = 1, cx = 0, cy = 0\<rparr>,
        \<lparr>cz = 1, cx = 0, cy = 1\<rparr>, \<lparr>cz = 1, cx = 1, cy = 0\<rparr>, \<lparr>cz = 1, cx = 1, cy = 1\<rparr>]
   \<and> \<not> distinct (map (job_coords \<circ> snd)
         (sent (master (runCluster sampleOptions 2 sampleEnv [0, 1, 0, 1, 0, 1]
                          (startCluster sampleOptions 2 sampleEnv [])))))"
proof -
  have two: "replicate 2 \<lparr> cz = 0::int, cx = 0::int, cy = 0::int \<rparr>
             = [\<lparr> cz = 0, cx = 0, cy = 0 \<rparr>, \<lparr> cz = 0, cx = 0, cy = 0 \<rparr>]"
    by (simp add: numeral_2_eq_2)
  have pos: "0 < (2::nat)" by simp
  have sched: "length (fst (jobsFrom sampleOptions (seed sampleOptions))) + 2
               \<le> length [0, 1, 0, 1, 0, 1::nat]"
    by (simp add: sample_jobs_length)
  have "sent (fst (getTiles sampleOptions 2 sampleEnv []))
         = map (\<lambda>w. (w, (newJob sampleOptions (coords (seed sampleOptions)))\<lparr> job_worker := Some w \<rparr>))
               [1..<2 + 1]"
    using sample_root(1) by (simp add: getTiles_def Let_def case_prod_beta del: upt_Suc)
  hence "map (job_coords \<circ> snd) (sent (fst (getTiles sampleOptions 2 sampleEnv [])))
         = replicate 2 (coords (seed sampleOptions))"
    by (simp only: initial_jobs_coords)
  hence first: "map (job_coords \<circ> snd) (sent (fst (getTiles sampleOptions 2 sampleEnv [])))
     = [\<lparr>cz = 0, cx = 0, cy = 0\<rparr>, \<lparr>cz = 0, cx = 0, cy = 0\<rparr>]"
    by (simp only: sample_seed_coords two)
  have run: "map (job_coords \<circ> snd)
         (sent (master (runCluster sampleOptions 2 sampleEnv [0, 1, 0, 1, 0, 1]
                          (startCluster sampleOptions 2 sampleEnv []))))
     = [\<lparr>cz = 0, cx = 0, cy = 0\<rparr>, \<lparr>cz = 0, cx = 0, cy = 0\<rparr>, \<lparr>cz = 1, cx = 0, cy = 0\<rparr>,
        \<lparr>cz = 1, cx = 0, cy = 1\<rparr>, \<lparr>cz = 1, cx = 1, cy = 0\<rparr>, \<lparr>cz = 1, cx = 1, cy = 1\<rparr>]"
    unfolding run_complete(5) [OF sample_root(1) pos sched sample_reliable(1,2)]
      sample_seed_coords two
      sample_jobs_coords by simp
  show ?thesis unfolding run first by simp
qed

text \<open>
  C4: for every job whose destination path \<open>{outputRoot}/{z}/{x}/{y}.{format}\<close> exists on
  disk, the worker reports at once, without an error and without a request: the message is
  \<^verbatim>\<open>{url, success: false, err: null}\<close> (\<^verbatim>\<open>success\<close> is \<^verbatim>\<open>!!err\<close>, the flag the dispatcher
  reads to print an error), the disk is unchanged, no request is made and the worker
  process goes on, whatever the environment would have answered.
\<close>

theorem C4_existing_tile_is_not_fetched:
  assumes "existsSync disk0
             (job_output job @ ''/'' @ numToString (cz (job_coords job)) @ ''/''
              @ numToString (cx (job_coords job)) @ ''/'' @ numToString (cy (job_coords job))
              @ ''.'' @ job_format job)"
  shows "workerOnMessage env job disk0
         = (\<lparr> msg_url = job_url job, success = False, err = None \<rparr>, disk0, [], Continues)"
  using getTile_existing [OF assms] by (simp add: workerOnMessage_def)

theorem C4_existing_tile_witness:
  "existsSync [''tiles/1/0/1.png'']
     (job_output (newJob sampleOptions \<lparr>cz = 1, cx = 0, cy = 1\<rparr>) @ ''/''
      @ numToString (cz (job_coords (newJob sampleOptions \<lparr>cz = 1, cx = 0, cy = 1\<rparr>))) @ ''/''
      @ numToString (cx (job_coords (newJob sampleOptions \<lparr>cz = 1, cx = 0, cy = 1\<rparr>))) @ ''/''
      @ numToString (cy (job_coords (newJob sampleOptions \<lparr>cz = 1, cx = 0, cy = 1\<rparr>)))
      @ ''.'' @ job_format (newJob sampleOptions \<lparr>cz = 1, cx = 0, cy = 1\<rparr>))
   \<and> workerOnMessage offlineEnv (newJob sampleOptions \<lparr>cz = 1, cx = 0, cy = 1\<rparr>) [''tiles/1/0/1.png'']
       = (\<lparr> msg_url = ''http://tiles/{z}/{x}/{y}.png'', success = False, err = None \<rparr>,
          [''tiles/1/0/1.png''], [], Continues)"
proof -
  have ex: "existsSync [''tiles/1/0/1.png'']
     (job_output (newJob sampleOptions \<lparr>cz = 1, cx = 0, cy = 1\<rparr>) @ ''/''
      @ numToString (cz (job_coords (newJob sampleOptions \<lparr>cz = 1, cx = 0, cy = 1\<rparr>))) @ ''/''
      @ numToString (cx (job_coords (newJob sampleOptions \<lparr>cz = 1, cx = 0, cy = 1\<rparr>))) @ ''/''
      @ numToString (cy (job_coords (newJob sampleOptions \<lparr>cz = 1, cx = 0, cy = 1\<rparr>)))
      @ ''.'' @ job_format (newJob sampleOptions \<lparr>cz = 1, cx = 0, cy = 1\<rparr>))"
    by (simp add: newJob_def sampleOptions_def tileFormat_def VALID_FORMATS_def
        numToString_samples existsSync_def)
  from C4_existing_tile_is_not_fetched [OF ex, of offlineEnv]
  have "workerOnMessage offlineEnv (newJob sampleOptions \<lparr>cz = 1, cx = 0, cy = 1\<rparr>) [''tiles/1/0/1.png'']
       = (\<lparr> msg_url = ''http://tiles/{z}/{x}/{y}.png'', success = False, err = None \<rparr>,
          [''tiles/1/0/1.png''], [], Continues)"
    by (simp add: newJob_def sampleOptions_def)
  with ex show ?thesis by (rule conjI)
qed

lemma sample_seed:
  "seed sampleOptions = \<lparr>count = 0, coords = \<lparr>cz = 0, cx = 0, cy = 0\<rparr>,
     bounds = \<lparr> north = 0, west = 0, south = 0, east = 0 \<rparr>\<rparr>"
  by (simp add: seed_def Let_def sample_bounds sample_zoom)

lemma sample_first_step:
  "fst (getNextJob sampleOptions (seed sampleOptions))
     = Some (newJob sampleOptions \<lparr>cz = 1, cx = 0, cy = 0\<rparr>)"
  by (simp add: getNextJob_def Let_def sample_seed sample_bounds sample_zoom)

lemma readOnly_start:
  "\<exists>w. inbox (startCluster sampleOptions 1 readOnlyEnv [])
        = [(w, (newJob sampleOptions \<lparr>cz = 0, cx = 0, cy = 0\<rparr>)\<lparr> job_worker := Some w \<rparr>)]"
  "sent (master (startCluster sampleOptions 1 readOnlyEnv []))
     = inbox (startCluster sampleOptions 1 readOnlyEnv [])"
  "disk (startCluster sampleOptions 1 readOnlyEnv []) = [''tiles'']"
  "requests (startCluster sampleOptions 1 readOnlyEnv []) = []"
  by (simp_all add: startCluster_sent [OF sample_root(3)] sample_seed_coords)
     (simp_all add: startCluster_def getTiles_def Let_def case_prod_beta createDir_def
        existsSync_def readOnlyEnv_def sampleOptions_def)

lemma readOnly_worker:
  "workerOnMessage readOnlyEnv ((newJob sampleOptions \<lparr>cz = 0, cx = 0, cy = 0\<rparr>)\<lparr> job_worker := w \<rparr>)
     [''tiles'']
   = (\<lparr> msg_url = ''http://tiles/{z}/{x}/{y}.png'', success = True,
        err = Some (pathError ''tiles/0'') \<rparr>, [''tiles''], [], Continues)"
  by (simp add: workerOnMessage_def getTile_def Let_def createDir_def existsSync_def
      readOnlyEnv_def newJob_def sampleOptions_def numToString_samples)

text \<open>
  C5: a failure to make the output directory, or a \<open>{z}\<close> or \<open>{z}/{x}\<close> directory, aborts
  the run with a path error, and no job is issued afterwards. For the output directory
  this holds in both versions (\<open>getTiles_root_failure\<close>, \<open>getTiles_seq_root_failure\<close>), and
  for the other two levels in \<^verbatim>\<open>part_000\<close> (\<open>getTileLoop_abort\<close>). In \<^verbatim>\<open>part_001\<close> the
  worker reports the path error, but the master only prints it and goes on: with one
  worker, the sample box and an environment in which nothing but the output directory can
  be made, the first report carries the error for \<^verbatim>\<open>tiles/0\<close>; after it the caller's
  callback has not been called and a second job has been sent; the run ends with all five
  jobs sent and the callback called once, without an error.
\<close>

theorem C5_path_error_does_not_abort_cluster:
  "disk (startCluster sampleOptions 1 readOnlyEnv []) = [''tiles'']
   \<and> map (job_coords \<circ> snd) (inbox (startCluster sampleOptions 1 readOnlyEnv []))
       = [\<lparr>cz = 0, cx = 0, cy = 0\<rparr>]
   \<and> err (fst (workerOnMessage readOnlyEnv
                  (snd (hd (inbox (startCluster sampleOptions 1 readOnlyEnv [])))) [''tiles'']))
       = Some (pathError ''tiles/0'')
   \<and> callbacks (master (report sampleOptions 1 readOnlyEnv 0
                           (startCluster sampleOptions 1 readOnlyEnv []))) = []
   \<and> map (job_coords \<circ> snd)
         (sent (master (report sampleOptions 1 readOnlyEnv 0
                          (startCluster sampleOptions 1 readOnlyEnv []))))
       = [\<lparr>cz = 0, cx = 0, cy = 0\<rparr>, \<lparr>cz = 1, cx = 0, cy = 0\<rparr>]
   \<and> callbacks (master (runCluster sampleOptions 1 readOnlyEnv [0, 0, 0, 0, 0]
                           (startCluster sampleOptions 1 readOnlyEnv []))) = [None]
   \<and> map (job_coords \<circ> snd)
         (sent (master (runCluster sampleOptions 1 readOnlyEnv [0, 0, 0, 0, 0]
                          (startCluster sampleOptions 1 readOnlyEnv []))))
       = [\<lparr>cz = 0, cx = 0, cy = 0\<rparr>, \<lparr>cz = 1, cx = 0, cy = 0\<rparr>, \<lparr>cz = 1, cx = 0, cy = 1\<rparr>,
          \<lparr>cz = 1, cx = 1, cy = 0\<rparr>, \<lparr>cz = 1, cx = 1, cy = 1\<rparr>]"
proof -
  let ?c0 = "startCluster sampleOptions 1 readOnlyEnv []"
  let ?job = "\<lambda>w. (newJob sampleOptions \<lparr>cz = 0, cx = 0, cy = 0\<rparr>)\<lparr> job_worker := Some w \<rparr>"
  obtain w where inbox: "inbox ?c0 = [(w, ?job w)]" using readOnly_start(1) by blast
  have a: "disk ?c0 = [''tiles'']" by (rule readOnly_start(3))
  have b: "map (job_coords \<circ> snd) (inbox ?c0) = [\<lparr>cz = 0, cx = 0, cy = 0\<rparr>]"
    unfolding inbox by (simp add: newJob_def)
  have c: "err (fst (workerOnMessage readOnlyEnv (snd (hd (inbox ?c0))) [''tiles'']))
       = Some (pathError ''tiles/0'')"
    unfolding inbox by (simp add: readOnly_worker)
  let ?c1 = "report sampleOptions 1 readOnlyEnv 0 ?c0"
  note m = report_single(1) [OF inbox, of sampleOptions 1 readOnlyEnv 0]
  have it: "iter (master ?c0) = seed sampleOptions"
    by (rule startCluster_sent(3) [OF sample_root(3)])
  have cb: "callbacks (master ?c0) = []" by (rule startCluster_sent(5) [OF sample_root(3)])
  have d: "callbacks (master ?c1) = []"
    unfolding m onMessage_callbacks it sample_first_step cb by simp
  have e: "map (job_coords \<circ> snd) (sent (master ?c1))
       = [\<lparr>cz = 0, cx = 0, cy = 0\<rparr>, \<lparr>cz = 1, cx = 0, cy = 0\<rparr>]"
    unfolding m onMessage_sent it sample_first_step readOnly_start(2) inbox
    by (simp add: newJob_def)
  have pos: "0 < (1::nat)" by simp
  have sched: "length (fst (jobsFrom sampleOptions (seed sampleOptions))) + 1
               \<le> length [0, 0, 0, 0, 0::nat]"
    by (simp add: sample_jobs_length)
  note run = run_complete [OF sample_root(3) pos sched sample_reliable(3,4)]
  have f: "callbacks (master (runCluster sampleOptions 1 readOnlyEnv [0, 0, 0, 0, 0] ?c0)) = [None]"
    by (rule run(2))
  have g: "map (job_coords \<circ> snd)
         (sent (master (runCluster sampleOptions 1 readOnlyEnv [0, 0, 0, 0, 0] ?c0)))
       = [\<lparr>cz = 0, cx = 0, cy = 0\<rparr>, \<lparr>cz = 1, cx = 0, cy = 0\<rparr>, \<lparr>cz = 1, cx = 0, cy = 1\<rparr>,
          \<lparr>cz = 1, cx = 1, cy = 0\<rparr>, \<lparr>cz = 1, cx = 1, cy = 1\<rparr>]"
    unfolding run(5) sample_seed_coords sample_jobs_coords by simp
  from a b c d e f g show ?thesis by blast
qed

lemma getTiles_root_failure:
  assumes "\<not> fst (createDir env (output_dir options) disk0)"
  shows "sent (fst (getTiles options numCPUs env disk0)) = []"
    and "callbacks (fst (getTiles options numCPUs env disk0))
         = [Some (pathError (output_dir options))]"
    and "inbox (startCluster options numCPUs env disk0) = []"
  using assms by (simp_all add: getTiles_def startCluster_def Let_def case_prod_beta)

section \<open>A request that fails\<close>

lemma report_pick:
  assumes "inbox c \<noteq> []"
  shows "\<exists>i w job. i < length (inbox c) \<and> inbox c ! i = (w, job)
           \<and> master (report options numCPUs env k c)
               = onMessage options numCPUs w (fst (workerOnMessage env job (disk c))) (master c)
           \<and> disk (report options numCPUs env k c) = fst (snd (workerOnMessage env job (disk c)))
           \<and> inbox (report options numCPUs env k c)
               = take i (inbox c) @ drop (Suc i) (inbox c)
                 @ (if snd (snd (snd (workerOnMessage env job (disk c)))) = Ends then []
                    else drop (length (sent (master c)))
                           (sent (onMessage options numCPUs w
                                    (fst (workerOnMessage env job (disk c))) (master c))))
           \<and> exited (report options numCPUs env k c)
               = exited c @ (if snd (snd (snd (workerOnMessage env job (disk c)))) = Ends
                             then [w] else [])"
proof -
  let ?i = "k mod length (inbox c)"
  have i: "?i < length (inbox c)" using assms by simp
  obtain w job where p: "inbox c ! ?i = (w, job)" by (cases "inbox c ! ?i")
  show ?thesis
    using assms i p
    by (intro exI [of _ ?i] exI [of _ w] exI [of _ job])
       (simp add: report_def Let_def case_prod_beta)
qed

lemma sample_steps:
  "getNextJob sampleOptions (seed sampleOptions)
     = (Some (newJob sampleOptions \<lparr>cz = 1, cx = 0, cy = 0\<rparr>),
        \<lparr>count = 1, coords = \<lparr>cz = 1, cx = 0, cy = 0\<rparr>,
         bounds = \<lparr> north = 0, west = 0, south = 1, east = 1 \<rparr>\<rparr>)"
  "getNextJob sampleOptions
     \<lparr>count = 1, coords = \<lparr>cz = 1, cx = 0, cy = 0\<rparr>,
      bounds = \<lparr> north = 0, west = 0, south = 1, east = 1 \<rparr>\<rparr>
     = (Some (newJob sampleOptions \<lparr>cz = 1, cx = 0, cy = 1\<rparr>),
        \<lparr>count = 2, coords = \<lparr>cz = 1, cx = 0, cy = 1\<rparr>,
         bounds = \<lparr> north = 0, west = 0, south = 1, east = 1 \<rparr>\<rparr>)"
  by (simp_all add: getNextJob_def Let_def sample_seed sample_bounds sample_zoom)

lemma offline_worker:
  "workerOnMessage offlineEnv ((newJob sampleOptions \<lparr>cz = 0, cx = 0, cy = 0\<rparr>)\<lparr> job_worker := w \<rparr>)
     [''tiles'']
   = (\<lparr> msg_url = ''http://tiles/{z}/{x}/{y}.png'', success = False, err = None \<rparr>,
      [''tiles'', ''tiles/0'', ''tiles/0/0''], [(''http://tiles/0/0/0.png'', None)], Ends)"
  "workerOnMessage offlineEnv ((newJob sampleOptions \<lparr>cz = 0, cx = 0, cy = 0\<rparr>)\<lparr> job_worker := w \<rparr>)
     [''tiles'', ''tiles/0'', ''tiles/0/0'']
   = (\<lparr> msg_url = ''http://tiles/{z}/{x}/{y}.png'', success = False, err = None \<rparr>,
      [''tiles'', ''tiles/0'', ''tiles/0/0''], [(''http://tiles/0/0/0.png'', None)], Ends)"
  by (simp_all add: workerOnMessage_def getTile_def Let_def createDir_def existsSync_def
      offlineEnv_def newJob_def sampleOptions_def numToString_samples templateToUrl_def
      tileFormat_def VALID_FORMATS_def)

lemma offline_start:
  "inbox (startCluster sampleOptions 2 offlineEnv [])
     = [(1, (newJob sampleOptions \<lparr>cz = 0, cx = 0, cy = 0\<rparr>)\<lparr> job_worker := Some 1 \<rparr>),
        (2, (newJob sampleOptions \<lparr>cz = 0, cx = 0, cy = 0\<rparr>)\<lparr> job_worker := Some 2 \<rparr>)]"
  "sent (master (startCluster sampleOptions 2 offlineEnv []))
     = inbox (startCluster sampleOptions 2 offlineEnv [])"
  "disk (startCluster sampleOptions 2 offlineEnv []) = [''tiles'']"
  "iter (master (startCluster sampleOptions 2 offlineEnv [])) = seed sampleOptions"
  "callbacks (master (startCluster sampleOptions 2 offlineEnv [])) = []"
  "killed (master (startCluster sampleOptions 2 offlineEnv [])) = False"
  "exited (startCluster sampleOptions 2 offlineEnv []) = []"
proof -
  have u: "[1..<2 + 1] = [1, 2::nat]" by (simp add: upt_rec)
  note st = startCluster_sent [OF sample_root(2), of 2]
  show "inbox (startCluster sampleOptions 2 offlineEnv [])
     = [(1, (newJob sampleOptions \<lparr>cz = 0, cx = 0, cy = 0\<rparr>)\<lparr> job_worker := Some 1 \<rparr>),
        (2, (newJob sampleOptions \<lparr>cz = 0, cx = 0, cy = 0\<rparr>)\<lparr> job_worker := Some 2 \<rparr>)]"
    unfolding st(2) st(1) u sample_seed_coords by simp
  show "sent (master (startCluster sampleOptions 2 offlineEnv []))
     = inbox (startCluster sampleOptions 2 offlineEnv [])" by (simp only: st(2))
  show "disk (startCluster sampleOptions 2 offlineEnv []) = [''tiles'']"
    by (simp add: startCluster_def getTiles_def Let_def case_prod_beta createDir_def
        existsSync_def offlineEnv_def sampleOptions_def)
  show "iter (master (startCluster sampleOptions 2 offlineEnv [])) = seed sampleOptions"
    "callbacks (master (startCluster sampleOptions 2 offlineEnv [])) = []"
    "killed (master (startCluster sampleOptions 2 offlineEnv [])) = False"
    "exited (startCluster sampleOptions 2 offlineEnv []) = []"
    by (rule st(3) st(5) st(6) st(8))+
qed

text \<open>
  C6: a fetch or write failure for a single tile never halts the run: the worker still
  reports, the dispatcher issues the next job, and the run goes on to its normal end.
  The first two hold, the third does not. With two workers, the sample box and an
  environment in which every request fails: the worker that holds the job for
  \<open>(0, 0, 0)\<close> makes the request and reports without an error, and its process ends on
  the rejection that nothing catches; the master sends it the job for \<open>(1, 0, 0)\<close>, which
  is never done. The second worker goes the same way with \<open>(1, 0, 1)\<close>. Whatever the order
  of the two reports and however long the run is followed after them, no worker is left,
  two of the five addresses were never issued, the workers were never killed and the
  caller's callback was never called.
\<close>

theorem C6_failed_request_ends_the_worker:
  "workerOnMessage offlineEnv
      (snd (hd (inbox (startCluster sampleOptions 2 offlineEnv []))))
      (disk (startCluster sampleOptions 2 offlineEnv []))
     = (\<lparr> msg_url = ''http://tiles/{z}/{x}/{y}.png'', success = False, err = None \<rparr>,
        [''tiles'', ''tiles/0'', ''tiles/0/0''], [(''http://tiles/0/0/0.png'', None)], Ends)
   \<and> inbox (runCluster sampleOptions 2 offlineEnv (k1 # k2 # ks)
               (startCluster sampleOptions 2 offlineEnv [])) = []
   \<and> set (exited (runCluster sampleOptions 2 offlineEnv (k1 # k2 # ks)
                     (startCluster sampleOptions 2 offlineEnv []))) = {1, 2}
   \<and> map (job_coords \<circ> snd)
         (sent (master (runCluster sampleOptions 2 offlineEnv (k1 # k2 # ks)
                          (startCluster sampleOptions 2 offlineEnv []))))
       = [\<lparr>cz = 0, cx = 0, cy = 0\<rparr>, \<lparr>cz = 0, cx = 0, cy = 0\<rparr>, \<lparr>cz = 1, cx = 0, cy = 0\<rparr>,
          \<lparr>cz = 1, cx = 0, cy = 1\<rparr>]
   \<and> length (addresses sampleOptions) = 5
   \<and> \<not> killed (master (runCluster sampleOptions 2 offlineEnv (k1 # k2 # ks)
                             (startCluster sampleOptions 2 offlineEnv [])))
   \<and> callbacks (master (runCluster sampleOptions 2 offlineEnv (k1 # k2 # ks)
                           (startCluster sampleOptions 2 offlineEnv []))) = []"
proof -
  let ?c0 = "startCluster sampleOptions 2 offlineEnv []"
  let ?j = "\<lambda>w. (newJob sampleOptions \<lparr>cz = 0, cx = 0, cy = 0\<rparr>)\<lparr> job_worker := Some w \<rparr>"
  let ?msg = "\<lparr> msg_url = ''http://tiles/{z}/{x}/{y}.png'', success = False, err = None \<rparr>"
  let ?D = "[''tiles'', ''tiles/0'', ''tiles/0/0'']"
  let ?it1 = "\<lparr>count = 1, coords = \<lparr>cz = 1, cx = 0, cy = 0\<rparr>,
               bounds = \<lparr> north = 0, west = 0, south = 1, east = 1 \<rparr>\<rparr>"
  define c1 where "c1 = report sampleOptions 2 offlineEnv k1 ?c0"
  define c2 where "c2 = report sampleOptions 2 offlineEnv k2 c1"
  have first: "workerOnMessage offlineEnv (snd (hd (inbox ?c0))) (disk ?c0)
     = (?msg, ?D, [(''http://tiles/0/0/0.png'', None)], Ends)"
    unfolding offline_start(1,3) by (simp add: offline_worker(1))
  have ne: "inbox ?c0 \<noteq> []" unfolding offline_start(1) by simp
  from report_pick [OF ne, of sampleOptions 2 offlineEnv k1]
  obtain i w job where p: "i < length (inbox ?c0)" "inbox ?c0 ! i = (w, job)"
    and m1: "master c1 = onMessage sampleOptions 2 w (fst (workerOnMessage offlineEnv job (disk ?c0)))
                          (master ?c0)"
    and d1: "disk c1 = fst (snd (workerOnMessage offlineEnv job (disk ?c0)))"
    and i1: "inbox c1 = take i (inbox ?c0) @ drop (Suc i) (inbox ?c0)
                 @ (if snd (snd (snd (workerOnMessage offlineEnv job (disk ?c0)))) = Ends then []
                    else drop (length (sent (master ?c0)))
                           (sent (onMessage sampleOptions 2 w
                                    (fst (workerOnMessage offlineEnv job (disk ?c0))) (master ?c0))))"
    and x1: "exited c1 = exited ?c0
                 @ (if snd (snd (snd (workerOnMessage offlineEnv job (disk ?c0)))) = Ends
                    then [w] else [])"
    unfolding c1_def by blast
  from p(1) have "i = 0 \<or> i = 1" unfolding offline_start(1) by auto
  hence "\<exists>w'. job = ?j w \<and> inbox c1 = [(w', ?j w')] \<and> {w, w'} = {1, 2}"
  proof
    assume "i = 0"
    hence "job = ?j w \<and> inbox c1 = [(2, ?j 2)] \<and> {w, 2} = {1, 2}"
      using p(2) i1 unfolding offline_start(1,3) by (auto simp: offline_worker(1))
    thus ?thesis by blast
  next
    assume "i = 1"
    hence "job = ?j w \<and> inbox c1 = [(1, ?j 1)] \<and> {w, 1} = {1, 2}"
      using p(2) i1 unfolding offline_start(1,3) by (auto simp: offline_worker(1))
    thus ?thesis by blast
  qed
  then obtain w' where ww: "job = ?j w" "inbox c1 = [(w', ?j w')]" "{w, w'} = {1, 2}"
    by blast
  have W1: "workerOnMessage offlineEnv job (disk ?c0)
            = (?msg, ?D, [(''http://tiles/0/0/0.png'', None)], Ends)"
    unfolding ww(1) offline_start(3) by (rule offline_worker(1))
  have D1: "disk c1 = ?D" unfolding d1 W1 by simp
  have X1: "exited c1 = [w]" unfolding x1 W1 offline_start(7) by simp
  have M1: "master c1 = onMessage sampleOptions 2 w ?msg (master ?c0)" unfolding m1 W1 by simp
  have it1: "iter (master c1) = ?it1"
    unfolding M1 onMessage_iter offline_start(4) sample_steps(1) by simp
  have s1: "sent (master c1) = inbox ?c0 @ [(w, newJob sampleOptions \<lparr>cz = 1, cx = 0, cy = 0\<rparr>)]"
    unfolding M1 onMessage_sent offline_start(4) sample_steps(1) offline_start(2) by simp
  have cb1: "callbacks (master c1) = []"
    unfolding M1 onMessage_callbacks offline_start(4,5) sample_steps(1) by simp
  have k1: "\<not> killed (master c1)"
    unfolding M1 onMessage_killed offline_start(4,6) sample_steps(1) by simp
  have W2: "workerOnMessage offlineEnv (?j w') (disk c1)
            = (?msg, ?D, [(''http://tiles/0/0/0.png'', None)], Ends)"
    unfolding D1 by (rule offline_worker(2))
  note R = report_single [OF ww(2), of sampleOptions 2 offlineEnv k2]
  have M2: "master c2 = onMessage sampleOptions 2 w' ?msg (master c1)"
    unfolding c2_def R(1) W2 by simp
  have X2: "exited c2 = [w, w']" unfolding c2_def R(4) W2 X1 by simp
  have I2: "inbox c2 = []" unfolding c2_def R(5) W2 by simp
  have s2: "sent (master c2) = inbox ?c0 @ [(w, newJob sampleOptions \<lparr>cz = 1, cx = 0, cy = 0\<rparr>),
                                             (w', newJob sampleOptions \<lparr>cz = 1, cx = 0, cy = 1\<rparr>)]"
    unfolding M2 onMessage_sent it1 sample_steps(2) s1 by simp
  have cb2: "callbacks (master c2) = []"
    unfolding M2 onMessage_callbacks it1 sample_steps(2) cb1 by simp
  have k2: "\<not> killed (master c2)"
    unfolding M2 onMessage_killed it1 sample_steps(2) using k1 by simp
  have run: "runCluster sampleOptions 2 offlineEnv (k1 # k2 # ks) ?c0 = c2"
    unfolding c1_def c2_def using I2 [unfolded c2_def c1_def]
    by (simp add: runCluster_idle)
  have a: "inbox c2 = []" by (rule I2)
  have b: "set (exited c2) = {1, 2}" unfolding X2 using ww(3) by simp
  have c: "map (job_coords \<circ> snd) (sent (master c2))
       = [\<lparr>cz = 0, cx = 0, cy = 0\<rparr>, \<lparr>cz = 0, cx = 0, cy = 0\<rparr>, \<lparr>cz = 1, cx = 0, cy = 0\<rparr>,
          \<lparr>cz = 1, cx = 0, cy = 1\<rparr>]"
    unfolding s2 offline_start(1) by (simp add: newJob_def)
  have d: "length (addresses sampleOptions) = 5" by (simp add: sample_addresses)
  from first a b c d k2 cb2 show ?thesis unfolding run by blast
qed

text \<open>
  A write that fails ends the worker in the same way (the callback has been called by
  then), and in \<^verbatim>\<open>part_000\<close> a request or write that fails ends the one process there is.
  Where every request and every write succeeds the run of the cluster ends as the claim
  says (\<open>run_complete\<close>).
\<close>

lemma getTile_failed_write:
  assumes "\<not> existsSync d (out @ ''/'' @ numToString (cz c) @ ''/'' @ numToString (cx c) @ ''/''
                          @ numToString (cy c) @ ''.'' @ fmt)"
    and "fetchOk env (templateToUrl u c)"
    and "writeStream env (out @ ''/'' @ numToString (cz c) @ ''/'' @ numToString (cx c) @ ''/''
                          @ numToString (cy c) @ ''.'' @ fmt) \<noteq> Written"
    and "\<forall>p. mkdirSync env p \<noteq> MkdirFailed"
  shows "fst (getTile env u out c ref fmt d) = None"
    and "snd (snd (snd (getTile env u out c ref fmt d))) = Ends"
proof -
  let ?p1 = "out @ ''/'' @ numToString (cz c)"
  let ?p2 = "?p1 @ ''/'' @ numToString (cx c)"
  let ?img = "?p2 @ ''/'' @ numToString (cy c) @ ''.'' @ fmt"
  let ?d1 = "snd (createDir env ?p1 d)"
  let ?d2 = "snd (createDir env ?p2 ?d1)"
  have m1: "fst (createDir env ?p1 d)" and m2: "fst (createDir env ?p2 ?d1)"
    using assms(4) by (rule createDir_never_fails)+
  have a: "\<not> existsSync d ?img" using assms(1) by simp
  have "length ?p1 < length ?img" by simp
  with a have d1: "\<not> existsSync ?d1 ?img" by (rule createDir_keeps_absent)
  have "length ?p2 < length ?img" by simp
  with d1 have d2: "\<not> existsSync ?d2 ?img" by (rule createDir_keeps_absent)
  have w: "writeStream env ?img \<noteq> Written" using assms(3) by simp
  show "fst (getTile env u out c ref fmt d) = None"
    and "snd (snd (snd (getTile env u out c ref fmt d))) = Ends"
    using m1 m2 d2 assms(2) w
    by (simp_all add: getTile_def Let_def case_prod_beta split: WriteResult.splits)
qed

lemma getTileLoop_ends:
  assumes "snd (snd (snd (getTile_seq env (url options) (output_dir options) (coords it) d)))
           = Ends"
  shows "run_exit (getTileLoop options env it d) = Ends"
    and "tiles (getTileLoop options env it d) = [coords it]"
  using assms by (subst getTileLoop.simps; simp add: case_prod_beta)+

section \<open>The range of lngToTile\<close>

text \<open>
  C8 (as stated): for every zoom level \<open>z \<ge> 0\<close> and every longitude in \<open>[-180, 180)\<close>,
  \<^verbatim>\<open>lngToTile(lng, z)\<close> lies in \<open>[0, 2\<^sup>z - 1]\<close>. In exact arithmetic this holds
  (\<open>longitudeToTileX_range\<close>, \<open>longitudeToTileX_mono\<close>). In the arithmetic of the code it
  fails for the largest double below 180: \<open>180 - 2\<^sup>-\<^sup>4\<^sup>5\<close> is a double, it lies in
  \<open>[-180, 180)\<close>, and at zoom 0 the code returns 1 for it, above \<open>2\<^sup>0 - 1 = 0\<close>, because
  the sum \<^verbatim>\<open>lng + 180\<close> is rounded to 360.
\<close>

theorem C8_last_double_below_180:
  "toDouble (180 - 1 / 2 ^ 45) = 180 - 1 / 2 ^ 45
   \<and> - 180 \<le> (180 - 1 / 2 ^ 45 :: real)
   \<and> (180 - 1 / 2 ^ 45 :: real) < 180
   \<and> lngToTile (180 - 1 / 2 ^ 45) 0 = 1
   \<and> 2 ^ nat 0 - 1 < lngToTile (180 - 1 / 2 ^ 45) 0"
proof -
  have "- 180 \<le> (180 - 1 / 2 ^ 45 :: real)" and "(180 - 1 / 2 ^ 45 :: real) < 180"
    by simp_all
  moreover have "2 ^ nat 0 - 1 < lngToTile (180 - 1 / 2 ^ 45) 0"
    unfolding lngToTile_last_below_180 by simp
  ultimately show ?thesis
    using toDouble_last_below_180 lngToTile_last_below_180 by blast
qed

text \<open>
  C8 (amended): for every zoom level \<open>0 \<le> z \<le> 1023\<close> and all longitudes
  \<open>-180 \<le> lng1 \<le> lng2\<close>, the results of \<^verbatim>\<open>lngToTile\<close> satisfy
  \<open>0 \<le> lngToTile(lng1, z) \<le> lngToTile(lng2, z)\<close>, and when \<open>lng2 \<le> 180 - 2\<^sup>-\<^sup>4\<^sup>4\<close> (every
  double of \<open>[-180, 180)\<close> but the last one) also \<open>lngToTile(lng2, z) \<le> 2\<^sup>z - 1\<close>. With
  \<open>lng1 = lng2\<close> this is the range of one longitude. For the last double below 180,
  \<open>180 - 2\<^sup>-\<^sup>4\<^sup>5\<close>, the result is \<open>2\<^sup>z\<close>. The bound on the zoom level keeps the power of
  two and the product inside the doubles.
\<close>

theorem C8_range_and_monotone:
  assumes "0 \<le> zm" and "zm \<le> 1023" and "- 180 \<le> lng1" and "lng1 \<le> lng2"
  shows "0 \<le> lngToTile lng1 zm
         \<and> lngToTile lng1 zm \<le> lngToTile lng2 zm
         \<and> (lng2 \<le> 180 - 1 / 2 ^ 44 \<longrightarrow> lngToTile lng2 zm \<le> 2 ^ nat zm - 1)
         \<and> lngToTile (180 - 1 / 2 ^ 45) zm = 2 ^ nat zm"
proof -
  have lo: "lngToTile (- 180) zm \<le> lngToTile lng1 zm"
    using assms(3) by (intro lngToTile_mono) simp_all
  have "lngToTile (- 180) zm = 0" by (simp add: lngToTile_def toDouble_def)
  hence a: "0 \<le> lngToTile lng1 zm" using lo by simp
  have b: "lngToTile lng1 zm \<le> lngToTile lng2 zm"
    using assms(3,4) by (rule lngToTile_mono)
  have c: "lng2 \<le> 180 - 1 / 2 ^ 44 \<longrightarrow> lngToTile lng2 zm \<le> 2 ^ nat zm - 1"
  proof
    assume "lng2 \<le> 180 - 1 / 2 ^ 44"
    moreover have "- 180 \<le> lng2" using assms(3,4) by simp
    ultimately show "lngToTile lng2 zm \<le> 2 ^ nat zm - 1"
      using lngToTile_range [OF assms(1)] by blast
  qed
  have d: "lngToTile (180 - 1 / 2 ^ 45) zm = 2 ^ nat zm"
    using assms(1) by (rule lngToTile_last_double)
  from a b c d show ?thesis by blast
qed

theorem C8_range_and_monotone_witness:
  "0 \<le> lngToTile 0 2
   \<and> lngToTile 0 2 \<le> lngToTile 90 2
   \<and> lngToTile 90 2 \<le> 3
   \<and> lngToTile (180 - 1 / 2 ^ 45) 2 = 4"
  using C8_range_and_monotone [of 2 0 90] by simp
end
